theory Spec2Isabelle
  imports
    Complex_Main
    "HOL-Library.Char_ord"
    "HOL-Library.List_Lexorder"
    "HOL-Library.Product_Lexorder"
    "HOL-Library.Sublist"
    "HOL-Library.AList"
begin

section \<open>Python values used by the scheduling engine\<close>

text \<open>
  A Python \<open>str\<close> is a \<open>string\<close> whose characters are code points below 256; comparison
  of strings is lexicographic by code point, which is the order of \<open>List_Lexorder\<close> over
  \<open>Char_ord\<close>, and tuples compare lexicographically (\<open>Product_Lexorder\<close>).
  A value read with \<open>d.get(k)\<close> is an option: \<open>None\<close> stands for Python's \<open>None\<close>
  (the key is absent). Python floats are modelled by exact rationals.
\<close>

definition truthy :: "string option \<Rightarrow> bool" where
  \<comment> \<open>Python truth value of \<open>d.get(k)\<close> for a string field: neither \<open>None\<close> nor \<open>''\<close>.\<close>
  "truthy v = (case v of None \<Rightarrow> False | Some s \<Rightarrow> s \<noteq> [])"

definition is_digit :: "char \<Rightarrow> bool" where
  "is_digit c = (CHR ''0'' \<le> c \<and> c \<le> CHR ''9'')"

definition digit_val :: "char \<Rightarrow> nat" where
  "digit_val c = of_char c - 48"

definition lower_char :: "char \<Rightarrow> char" where
  \<comment> \<open>\<open>str.lower\<close> on one code point below 256: A-Z and the Latin-1 capitals.\<close>
  "lower_char c =
     (let n = (of_char c :: nat)
      in if (65 \<le> n \<and> n \<le> 90) \<or> (192 \<le> n \<and> n \<le> 222 \<and> n \<noteq> 215)
         then char_of (n + 32) else c)"

definition lower :: "string \<Rightarrow> string" where
  "lower s = map lower_char s"

fun str_in :: "string \<Rightarrow> string \<Rightarrow> bool" where
  \<comment> \<open>Python's \<open>sub in s\<close> on strings.\<close>
  "str_in sub [] = (sub = [])"
| "str_in sub (c # cs) = (prefix sub (c # cs) \<or> str_in sub cs)"

fun digits_of :: "nat \<Rightarrow> string" where
  \<comment> \<open>the decimal rendering of a number, as an f-string prints it\<close>
  "digits_of n =
     (if n < 10 then [char_of (48 + n)]
      else digits_of (n div 10) @ [char_of (48 + n mod 10)])"

declare digits_of.simps [simp del]

definition py_slice_to :: "'a list \<Rightarrow> int \<Rightarrow> 'a list" where
  \<comment> \<open>\<open>xs[:n]\<close>: a negative bound counts from the end.\<close>
  "py_slice_to xs n =
     (if 0 \<le> n then take (nat n) xs else take (length xs - nat (- n)) xs)"

definition round_half_even :: "rat \<Rightarrow> int" where
  "round_half_even x =
     (let f = \<lfloor>x\<rfloor>; r = x - of_int f
      in if r < 1 / 2 then f else if 1 / 2 < r then f + 1
         else if even f then f else f + 1)"

definition py_round :: "rat \<Rightarrow> nat \<Rightarrow> rat" where
  \<comment> \<open>\<open>round(x, n)\<close> on the exact value of \<open>x\<close>, half to even. Python rounds the binary
      double nearest to \<open>x\<close>, so the two differ where the decimal half is not a double:
      \<open>round(1/20, 1)\<close> is \<open>0.1\<close> there and \<open>0\<close> here.\<close>
  "py_round x n = of_int (round_half_even (x * 10 ^ n)) / 10 ^ n"

definition sorted_reverse :: "('a \<Rightarrow> 'k::linorder) \<Rightarrow> 'a list \<Rightarrow> 'a list" where
  \<comment> \<open>\<open>sorted(xs, key=f, reverse=True)\<close>: the list is reversed, sorted stably, and
      reversed again, so equal keys keep their original order.\<close>
  "sorted_reverse f xs = rev (sort_key f (rev xs))"

subsection \<open>\<open>datetime.strptime(s, '%H:%M')\<close>\<close>

text \<open>
  The format compiles to the regular expression
  \<^verbatim>\<open>(?P<H>2[0-3]|[0-1]\d|\d):(?P<M>[0-5]\d|\d)\<close>, matched at the start of the string;
  the call raises \<open>ValueError\<close> when there is no match or when the match does not reach
  the end of the string. All results lie on 1900-01-01, so a parsed value is the number of
  minutes since midnight; \<open>None\<close> is the exception.
\<close>

definition hour2 :: "char \<Rightarrow> char \<Rightarrow> bool" where
  \<comment> \<open>\<open>2[0-3]|[0-1]\d\<close>\<close>
  "hour2 a b =
     ((a = CHR ''2'' \<and> CHR ''0'' \<le> b \<and> b \<le> CHR ''3'') \<or>
      ((a = CHR ''0'' \<or> a = CHR ''1'') \<and> is_digit b))"

definition parse_minute :: "string \<Rightarrow> nat option" where
  \<comment> \<open>\<open>[0-5]\d|\d\<close>, first alternative first, then the end of the string\<close>
  "parse_minute s =
     (case s of
        [a] \<Rightarrow> if is_digit a then Some (digit_val a) else None
      | [a, b] \<Rightarrow>
          if CHR ''0'' \<le> a \<and> a \<le> CHR ''5'' \<and> is_digit b
          then Some (10 * digit_val a + digit_val b) else None
      | _ \<Rightarrow> None)"

definition strptime_HM :: "string \<Rightarrow> nat option" where
  "strptime_HM s =
     (case s of
        a # b # rest \<Rightarrow>
          if b = CHR '':'' then
            (if is_digit a
             then map_option (\<lambda>m. 60 * digit_val a + m) (parse_minute rest)
             else None)
          else
            (case rest of
               c # rest' \<Rightarrow>
                 if c = CHR '':'' \<and> hour2 a b
                 then map_option (\<lambda>m. 60 * (10 * digit_val a + digit_val b) + m)
                        (parse_minute rest')
                 else None
             | [] \<Rightarrow> None)
      | _ \<Rightarrow> None)"

section \<open>Data model\<close>

text \<open>
  A session is a Python dict. The fields below are the keys the engine reads. A key read
  with a default (\<open>get('title', '')\<close>, \<open>get('score', 0)\<close>, \<open>get('keywords_matched', [])\<close>,
  \<open>get('venue') or ''\<close>) is stored as the value the read yields; a key read without one
  is an option. The last four fields are the annotations the engine adds to its copies.
\<close>

record session =
  session_id :: "string option"
  title :: string
  description :: string
  date :: "string option"
  start_time :: "string option"
  end_time :: "string option"
  venue :: string
  level :: string
  speakers :: "string list"
  keywords_matched :: "string list"
  score :: rat
  time_slot :: "string option"
  scheduled_start :: "string option"
  scheduled_end :: "string option"
  backup_score :: "rat option"

record slot =
  slot_id :: string
  slot_start :: string
  slot_end :: string
  slot_date :: string
  is_lunch_break :: bool
  buffer_before :: int
  buffer_after :: int

record config =
  LUNCH_BREAK_START :: string
  LUNCH_BREAK_END :: string
  BUFFER_MINUTES :: int
  MIN_BACKUP_SESSIONS :: int
  MAX_SESSIONS_PER_DAY :: int

definition Config :: config where
  \<comment> \<open>\<open>config.py\<close>, with the default of the environment variable\<close>
  "Config = \<lparr>LUNCH_BREAK_START = ''11:00'', LUNCH_BREAK_END = ''13:00'',
     BUFFER_MINUTES = 30, MIN_BACKUP_SESSIONS = 2, MAX_SESSIONS_PER_DAY = 8\<rparr>"

record conflict_resolver =
  cr_buffer_minutes :: nat

record backup_generator =
  min_backup_sessions :: int

record scheduling_algorithm =
  the_conflict_resolver :: conflict_resolver
  the_backup_generator :: backup_generator
  lunch_start :: nat
  lunch_end :: nat
  buffer_minutes :: int
  max_sessions_per_day :: int

definition ConflictResolver_init :: conflict_resolver where
  "ConflictResolver_init = \<lparr>cr_buffer_minutes = 30\<rparr>"

definition BackupGenerator_init :: "config \<Rightarrow> backup_generator" where
  "BackupGenerator_init cfg = \<lparr>min_backup_sessions = MIN_BACKUP_SESSIONS cfg\<rparr>"

definition SchedulingAlgorithm_init :: "config \<Rightarrow> scheduling_algorithm option" where
  \<comment> \<open>\<open>None\<close>: a lunch bound that does not parse raises \<open>ValueError\<close>.\<close>
  "SchedulingAlgorithm_init cfg =
     (case strptime_HM (LUNCH_BREAK_START cfg) of
        None \<Rightarrow> None
      | Some ls \<Rightarrow>
         (case strptime_HM (LUNCH_BREAK_END cfg) of
            None \<Rightarrow> None
          | Some le \<Rightarrow>
             Some \<lparr>the_conflict_resolver = ConflictResolver_init,
                   the_backup_generator = BackupGenerator_init cfg,
                   lunch_start = ls, lunch_end = le,
                   buffer_minutes = BUFFER_MINUTES cfg,
                   max_sessions_per_day = MAX_SESSIONS_PER_DAY cfg\<rparr>))"

section \<open>Scheduling algorithm\<close>

definition is_lunch_time :: "scheduling_algorithm \<Rightarrow> string \<Rightarrow> string \<Rightarrow> bool" where
  \<comment> \<open>a failed parse is swallowed by the bare \<open>except\<close> and yields \<open>False\<close>\<close>
  "is_lunch_time alg start_s end_s =
     (case strptime_HM start_s of
        None \<Rightarrow> False
      | Some st \<Rightarrow>
         (case strptime_HM end_s of
            None \<Rightarrow> False
          | Some en \<Rightarrow> st < lunch_end alg \<and> lunch_start alg < en))"

definition times_overlap :: "string \<Rightarrow> string \<Rightarrow> string \<Rightarrow> string \<Rightarrow> bool" where
  "times_overlap start1 end1 start2 end2 =
     (case (strptime_HM start1, strptime_HM end1, strptime_HM start2, strptime_HM end2) of
        (Some s1, Some e1, Some s2, Some e2) \<Rightarrow> s1 < e2 \<and> s2 < e1
      | _ \<Rightarrow> False)"

definition collect_session_times :: "session list \<Rightarrow> (string \<times> string) list" where
  \<comment> \<open>the pairs of the sessions that have both a start and an end\<close>
  "collect_session_times sessions =
     concat (map (\<lambda>s. case (start_time s, end_time s) of
                          (Some st, Some en) \<Rightarrow> if st \<noteq> [] \<and> en \<noteq> [] then [(st, en)] else []
                        | _ \<Rightarrow> []) sessions)"

definition new_slot :: "scheduling_algorithm \<Rightarrow> string \<Rightarrow> nat \<Rightarrow> string \<Rightarrow> string \<Rightarrow> slot" where
  "new_slot alg d n st en =
     \<lparr>slot_id = ''slot_'' @ digits_of (n + 1), slot_start = st, slot_end = en,
      slot_date = d, is_lunch_break = False,
      buffer_before = buffer_minutes alg, buffer_after = buffer_minutes alg\<rparr>"

fun slots_loop ::
  "scheduling_algorithm \<Rightarrow> string \<Rightarrow> slot list \<Rightarrow> (string \<times> string) list \<Rightarrow> slot list" where
  "slots_loop alg d time_slots [] = time_slots"
| "slots_loop alg d time_slots ((st, en) # rest) =
     (if is_lunch_time alg st en then slots_loop alg d time_slots rest
      else if list_ex (\<lambda>existing. times_overlap st en (slot_start existing) (slot_end existing))
                time_slots
      then slots_loop alg d time_slots rest
      else slots_loop alg d (time_slots @ [new_slot alg d (length time_slots) st en]) rest)"

definition generate_time_slots :: "scheduling_algorithm \<Rightarrow> session list \<Rightarrow> string \<Rightarrow> slot list" where
  "generate_time_slots alg sessions d =
     (let session_times = collect_session_times sessions
      in if session_times = [] then []
         else py_slice_to (slots_loop alg d [] (sort session_times)) (max_sessions_per_day alg))"

fun best_loop ::
  "string option set \<Rightarrow> slot \<Rightarrow> session option \<times> rat \<Rightarrow> session list \<Rightarrow> session option \<times> rat" where
  \<comment> \<open>the inner loop; the state is \<open>(best_session, best_score)\<close>\<close>
  "best_loop used sl best [] = best"
| "best_loop used sl best (s # ss) =
     (if session_id s \<in> used then best_loop used sl best ss
      else if start_time s = Some (slot_start sl) \<and> end_time s = Some (slot_end sl)
      then (if snd best < score s then best_loop used sl (Some s, score s) ss
            else best_loop used sl best ss)
      else best_loop used sl best ss)"

definition assign_slot :: "session \<Rightarrow> slot \<Rightarrow> session" where
  \<comment> \<open>the annotated copy of the chosen session\<close>
  "assign_slot s sl =
     s\<lparr>time_slot := Some (slot_id sl), scheduled_start := Some (slot_start sl),
       scheduled_end := Some (slot_end sl)\<rparr>"

fun primary_loop ::
  "session list \<Rightarrow> session list \<Rightarrow> string option set \<Rightarrow> slot list \<Rightarrow> session list" where
  \<comment> \<open>the outer loop; the state is \<open>(primary_sessions, used_sessions)\<close>\<close>
  "primary_loop sessions primary used [] = primary"
| "primary_loop sessions primary used (sl # slots) =
     (case fst (best_loop used sl (None, - 1) sessions) of
        None \<Rightarrow> primary_loop sessions primary used slots
      | Some b \<Rightarrow>
          primary_loop sessions (primary @ [assign_slot b sl]) (insert (session_id b) used) slots)"

definition schedule_primary_sessions :: "session list \<Rightarrow> slot list \<Rightarrow> session list" where
  "schedule_primary_sessions sessions time_slots = primary_loop sessions [] {} time_slots"

section \<open>Backup generator\<close>

definition times_are_compatible :: "string \<Rightarrow> string \<Rightarrow> string \<Rightarrow> string \<Rightarrow> bool" where
  \<comment> \<open>the differences are compared in seconds with 1800; minutes with 30 is the same\<close>
  "times_are_compatible session_start session_end slot_s slot_e =
     (case (strptime_HM session_start, strptime_HM session_end,
            strptime_HM slot_s, strptime_HM slot_e) of
        (Some s_start, Some s_end, Some sl_s, Some sl_e) \<Rightarrow>
           \<bar>int s_start - int sl_s\<bar> \<le> 30 \<and> \<bar>int s_end - int sl_e\<bar> \<le> 30
      | _ \<Rightarrow> False)"

definition session_fits_slot :: "session \<Rightarrow> string \<Rightarrow> string \<Rightarrow> bool" where
  "session_fits_slot s slot_s slot_e =
     (case (start_time s, end_time s) of
        (Some st, Some en) \<Rightarrow>
          if st = [] \<or> en = [] then False else times_are_compatible st en slot_s slot_e
      | _ \<Rightarrow> False)"

definition find_candidate_sessions ::
  "session list \<Rightarrow> string \<Rightarrow> string \<Rightarrow> string option set \<Rightarrow> session list" where
  "find_candidate_sessions all_sessions slot_s slot_e exclude_ids =
     filter (\<lambda>s. session_id s \<notin> exclude_ids \<and> session_fits_slot s slot_s slot_e) all_sessions"

definition calculate_time_compatibility_bonus :: "session \<Rightarrow> slot \<Rightarrow> rat" where
  "calculate_time_compatibility_bonus s sl =
     (case (start_time s, end_time s) of
        (Some st, Some en) \<Rightarrow>
          if st = [] \<or> en = [] then 0
          else
           (case (strptime_HM st, strptime_HM en,
                  strptime_HM (slot_start sl), strptime_HM (slot_end sl)) of
              (Some s_start, Some s_end, Some sl_s, Some sl_e) \<Rightarrow>
                 (let start_diff = of_int \<bar>int s_start - int sl_s\<bar> :: rat;
                      end_diff = of_int \<bar>int s_end - int sl_e\<bar> :: rat;
                      max_bonus = 2 / 10;
                      start_bonus = max 0 (max_bonus - (start_diff / 60) * (1 / 10));
                      end_bonus = max 0 (max_bonus - (end_diff / 60) * (1 / 10))
                  in (start_bonus + end_bonus) / 2)
            | _ \<Rightarrow> 0)
      | _ \<Rightarrow> 0)"

definition high_value_keywords :: "string list" where
  "high_value_keywords = [''ai'', ''architect'', ''lakehouse'', ''devops'']"

definition calculate_diversity_bonus :: "session \<Rightarrow> rat" where
  "calculate_diversity_bonus s =
     (let keywords = keywords_matched s;
          keyword_bonus = min (1 / 10) (of_nat (length keywords) * (3 / 100));
          high_value_bonus =
            fold (\<lambda>k acc. if lower k \<in> set high_value_keywords then acc + 2 / 100 else acc)
              keywords 0
      in min (15 / 100) (keyword_bonus + high_value_bonus))"

definition venue_bonus_table :: "(string \<times> rat) list" where
  "venue_bonus_table =
     [(''venetian'', 1 / 10), (''palazzo'', 1 / 10), (''wynn'', 8 / 100), (''encore'', 8 / 100),
      (''aria'', 6 / 100), (''bellagio'', 6 / 100), (''caesars'', 4 / 100), (''mirage'', 4 / 100)]"

fun first_venue_bonus :: "(string \<times> rat) list \<Rightarrow> string \<Rightarrow> rat" where
  "first_venue_bonus [] v = 2 / 100"
| "first_venue_bonus ((venue_name, bonus) # rest) v =
     (if str_in venue_name v then bonus else first_venue_bonus rest v)"

definition calculate_venue_bonus :: "session \<Rightarrow> rat" where
  \<comment> \<open>\<open>session.get('venue', '').lower()\<close>: the default covers a missing key only. A dict
      whose \<open>venue\<close> is \<open>None\<close> makes the call raise \<open>AttributeError\<close> outside any
      \<open>try\<close>, which aborts the backup generation; the field \<open>venue\<close> is a string, so such
      dicts are outside this model.\<close>
  "calculate_venue_bonus s = first_venue_bonus venue_bonus_table (lower (venue s))"

definition calculate_backup_score :: "session \<Rightarrow> slot \<Rightarrow> rat" where
  \<comment> \<open>The sum is exact here and in doubles in the source: two scores that differ by a
      rounding error there (\<open>0.72\<close> and \<open>0.7199999999999999\<close>) are equal here, so the order
      of two such candidates in the ranking can differ.\<close>
  "calculate_backup_score s sl =
     (let base_score = score s * (7 / 10);
          time_bonus = calculate_time_compatibility_bonus s sl;
          diversity_bonus = calculate_diversity_bonus s;
          venue_bonus = calculate_venue_bonus s;
          total_score = base_score + time_bonus + diversity_bonus + venue_bonus
      in min 1 total_score)"

definition backup_key :: "session \<Rightarrow> rat" where
  \<comment> \<open>\<open>x['backup_score']\<close>; every element sorted has just been given the key\<close>
  "backup_key x = (case backup_score x of Some v \<Rightarrow> v | None \<Rightarrow> 0)"

definition rank_backup_candidates :: "session list \<Rightarrow> slot \<Rightarrow> session list" where
  "rank_backup_candidates candidates sl =
     (if candidates = [] then []
      else sorted_reverse backup_key
             (map (\<lambda>c. c\<lparr>backup_score := Some (calculate_backup_score c sl)\<rparr>) candidates))"

definition select_backups ::
  "backup_generator \<Rightarrow> session list \<Rightarrow> string option set \<Rightarrow> slot \<Rightarrow> session list" where
  \<comment> \<open>the body of the loop over the slots\<close>
  "select_backups bg all_sessions primary_session_ids sl =
     (let candidate_sessions =
            find_candidate_sessions all_sessions (slot_start sl) (slot_end sl) primary_session_ids;
          ranked_backups = rank_backup_candidates candidate_sessions sl
      in py_slice_to ranked_backups (max (min_backup_sessions bg) 3))"

definition generate_backups ::
  "backup_generator \<Rightarrow> session list \<Rightarrow> session list \<Rightarrow> slot list \<Rightarrow> (string \<times> session list) list" where
  \<comment> \<open>the dict \<open>slot_id -> backups\<close>, in insertion order\<close>
  "generate_backups bg all_sessions primary_sessions time_slots =
     (let primary_session_ids = set (map session_id primary_sessions)
      in fold (\<lambda>sl backup_sessions.
                 AList.update (slot_id sl)
                   (select_backups bg all_sessions primary_session_ids sl) backup_sessions)
           time_slots [])"

section \<open>Conflict resolver\<close>

definition sessions_conflict ::
  "conflict_resolver \<Rightarrow> string \<Rightarrow> string \<Rightarrow> string \<Rightarrow> string \<Rightarrow> bool" where
  "sessions_conflict cr start1 end1 start2 end2 =
     (case (strptime_HM start1, strptime_HM end1, strptime_HM start2, strptime_HM end2) of
        (Some s1, Some e1, Some s2, Some e2) \<Rightarrow>
           s1 < e2 + cr_buffer_minutes cr \<and> s2 < e1 + cr_buffer_minutes cr
      | _ \<Rightarrow> False)"

definition conflicts_with_prev ::
  "conflict_resolver \<Rightarrow> string \<Rightarrow> string \<Rightarrow> session \<Rightarrow> bool" where
  \<comment> \<open>the test against one accepted session; \<open>strptime(None)\<close> raises \<open>TypeError\<close>,
      which the bare \<open>except\<close> turns into \<open>False\<close> as well\<close>
  "conflicts_with_prev cr current_start current_end prev =
     (case (scheduled_start prev, scheduled_end prev) of
        (Some prev_start, Some prev_end) \<Rightarrow>
           sessions_conflict cr current_start current_end prev_start prev_end
      | _ \<Rightarrow> False)"

definition reschedule_session :: "session \<Rightarrow> session list \<Rightarrow> session option" where
  \<comment> \<open>logs and returns \<open>None\<close>\<close>
  "reschedule_session s scheduled = None"

fun resolve_loop :: "conflict_resolver \<Rightarrow> session list \<Rightarrow> session list \<Rightarrow> session list" where
  "resolve_loop cr resolved [] = resolved"
| "resolve_loop cr resolved (s # rest) =
     (case (scheduled_start s, scheduled_end s) of
        (Some current_start, Some current_end) \<Rightarrow>
          if current_start = [] \<or> current_end = [] then resolve_loop cr (resolved @ [s]) rest
          else if list_ex (conflicts_with_prev cr current_start current_end) resolved
          then (case reschedule_session s resolved of
                  None \<Rightarrow> resolve_loop cr resolved rest
                | Some r \<Rightarrow> resolve_loop cr (resolved @ [r]) rest)
          else resolve_loop cr (resolved @ [s]) rest
      | _ \<Rightarrow> resolve_loop cr (resolved @ [s]) rest)"

definition start_key :: "session \<Rightarrow> string" where
  \<comment> \<open>\<open>x.get('scheduled_start', '00:00')\<close>\<close>
  "start_key x = (case scheduled_start x of None \<Rightarrow> ''00:00'' | Some s \<Rightarrow> s)"

definition resolve_time_conflicts :: "conflict_resolver \<Rightarrow> session list \<Rightarrow> session list" where
  "resolve_time_conflicts cr sessions =
     (if sessions = [] then sessions else resolve_loop cr [] (sort_key start_key sessions))"

definition primary_times :: "session list \<Rightarrow> (string \<times> string) list" where
  "primary_times primary_sessions =
     concat (map (\<lambda>s. case (scheduled_start s, scheduled_end s) of
                          (Some st, Some en) \<Rightarrow> if st \<noteq> [] \<and> en \<noteq> [] then [(st, en)] else []
                        | _ \<Rightarrow> []) primary_sessions)"

definition backup_is_valid :: "conflict_resolver \<Rightarrow> (string \<times> string) list \<Rightarrow> session \<Rightarrow> bool" where
  "backup_is_valid cr ptimes backup =
     (case (start_time backup, end_time backup) of
        (Some backup_start, Some backup_end) \<Rightarrow>
          if backup_start = [] \<or> backup_end = [] then False
          else \<not> list_ex (\<lambda>(primary_start, primary_end).
                            sessions_conflict cr backup_start backup_end primary_start primary_end)
                   ptimes
      | _ \<Rightarrow> False)"

definition validate_backup_sessions ::
  "conflict_resolver \<Rightarrow> session list \<Rightarrow> (string \<times> session list) list \<Rightarrow> (string \<times> session list) list" where
  "validate_backup_sessions cr primary_sessions backup_sessions =
     map (\<lambda>(sid, backups). (sid, filter (backup_is_valid cr (primary_times primary_sessions)) backups))
       backup_sessions"

record resolved_schedule =
  primary :: "session list"
  backups :: "(string \<times> session list) list"

definition reduce_venue_transitions ::
  "session list \<Rightarrow> (string \<times> session list) list \<Rightarrow> session list" where
  "reduce_venue_transitions primary_sessions backup_sessions = primary_sessions"

definition optimize_venue_proximity ::
  "session list \<Rightarrow> (string \<times> session list) list \<Rightarrow> resolved_schedule" where
  \<comment> \<open>the venue-transition report, which changes nothing, is left out\<close>
  "optimize_venue_proximity primary_sessions backup_sessions =
     (let sorted_primary = sort_key start_key primary_sessions;
          optimized_primary = reduce_venue_transitions sorted_primary backup_sessions
      in \<lparr>primary = optimized_primary, backups = backup_sessions\<rparr>)"

definition resolve_conflicts ::
  "conflict_resolver \<Rightarrow> session list \<Rightarrow> (string \<times> session list) list \<Rightarrow> slot list \<Rightarrow> resolved_schedule" where
  "resolve_conflicts cr primary_sessions backup_sessions time_slots =
     (let resolved_primary = resolve_time_conflicts cr primary_sessions;
          validated_backups = validate_backup_sessions cr resolved_primary backup_sessions
      in optimize_venue_proximity resolved_primary validated_backups)"

section \<open>Schedule aggregation\<close>

text \<open>
  Of the statistics, the three counters are modelled; the average score, the venue
  distribution and the keyword coverage are projections no property below depends on.
  A day with no session has a statistics dict with the three counters only and no
  \<open>time_slots\<close> key, which reads as the empty list here.
\<close>

record statistics =
  total_sessions :: nat
  scheduled_sessions :: nat
  backup_sessions_count :: nat

record daily_schedule =
  primary_sessions :: "session list"
  backup_sessions :: "(string \<times> session list) list"
  blocked_times :: "string list"
  time_slots :: "slot list"
  stats :: statistics

record summary =
  total_conference_days :: nat
  total_scheduled_sessions :: nat
  total_backup_sessions :: nat
  schedule_efficiency :: rat

definition calculate_daily_statistics ::
  "session list \<Rightarrow> session list \<Rightarrow> (string \<times> session list) list \<Rightarrow> statistics" where
  "calculate_daily_statistics all_sessions primary_list backup_pool =
     \<lparr>total_sessions = length all_sessions,
      scheduled_sessions = length primary_list,
      backup_sessions_count = sum_list (map (\<lambda>(sid, bs). length bs) backup_pool)\<rparr>"

definition blocked_times_of :: "config \<Rightarrow> string list" where
  "blocked_times_of cfg = [LUNCH_BREAK_START cfg @ ''-'' @ LUNCH_BREAK_END cfg]"

definition create_daily_schedule ::
  "config \<Rightarrow> scheduling_algorithm \<Rightarrow> session list \<Rightarrow> string \<Rightarrow> daily_schedule" where
  "create_daily_schedule cfg alg sessions d =
     (let sorted_sessions = sorted_reverse score sessions;
          slots = generate_time_slots alg sorted_sessions d;
          primary_list = schedule_primary_sessions sorted_sessions slots;
          backup_pool = generate_backups (the_backup_generator alg) sorted_sessions primary_list slots;
          resolved = resolve_conflicts (the_conflict_resolver alg) primary_list backup_pool slots
      in \<lparr>primary_sessions = primary resolved,
          backup_sessions = backups resolved,
          blocked_times = blocked_times_of cfg,
          time_slots = slots,
          stats = calculate_daily_statistics sessions (primary resolved) (backups resolved)\<rparr>)"

definition empty_daily_schedule :: "config \<Rightarrow> daily_schedule" where
  "empty_daily_schedule cfg =
     \<lparr>primary_sessions = [], backup_sessions = [], blocked_times = blocked_times_of cfg,
      time_slots = [],
      stats = \<lparr>total_sessions = 0, scheduled_sessions = 0, backup_sessions_count = 0\<rparr>\<rparr>"

definition group_sessions_by_date ::
  "session list \<Rightarrow> string list \<Rightarrow> (string \<times> session list) list" where
  "group_sessions_by_date sessions conference_dates =
     fold (\<lambda>s sessions_by_date.
             case date s of
               None \<Rightarrow> sessions_by_date
             | Some session_date \<Rightarrow>
                 if session_date \<in> set conference_dates
                 then AList.update session_date
                        ((case map_of sessions_by_date session_date of
                            None \<Rightarrow> [] | Some l \<Rightarrow> l) @ [s]) sessions_by_date
                 else sessions_by_date)
       sessions
       (fold (\<lambda>d acc. AList.update d [] acc) conference_dates [])"

definition schedule_days ::
  "config \<Rightarrow> scheduling_algorithm \<Rightarrow> session list \<Rightarrow> string list \<Rightarrow> (string \<times> daily_schedule) list" where
  \<comment> \<open>the dict \<open>schedule\<close> at the end of the loop over the dates\<close>
  "schedule_days cfg alg sessions conference_dates =
     (let sessions_by_date = group_sessions_by_date sessions conference_dates
      in fold (\<lambda>d schedule.
                 let daily_sessions = (case map_of sessions_by_date d of None \<Rightarrow> [] | Some l \<Rightarrow> l)
                 in if daily_sessions = [] then AList.update d (empty_daily_schedule cfg) schedule
                    else AList.update d (create_daily_schedule cfg alg daily_sessions d) schedule)
           conference_dates [])"

definition generate_schedule_summary :: "(string \<times> daily_schedule) list \<Rightarrow> summary" where
  \<comment> \<open>the argument is the dict the summary is computed from\<close>
  "generate_schedule_summary schedule =
     (let days = filter (\<lambda>(k, daily). k \<noteq> ''summary'') schedule;
          total = sum_list (map (\<lambda>(k, daily). scheduled_sessions (stats daily)) days);
          total_backups = sum_list (map (\<lambda>(k, daily). backup_sessions_count (stats daily)) days)
      in \<lparr>total_conference_days = length days,
          total_scheduled_sessions = total,
          total_backup_sessions = total_backups,
          schedule_efficiency =
            py_round (if 1 < length schedule
                      then of_nat total / of_int (int (length schedule) - 1) else 0) 1\<rparr>)"

record schedule_result =
  days :: "(string \<times> daily_schedule) list"
  the_summary :: summary

definition create_schedule ::
  "config \<Rightarrow> scheduling_algorithm \<Rightarrow> session list \<Rightarrow> string list \<Rightarrow> schedule_result" where
  \<comment> \<open>the summary is computed from the dict before the key \<open>'summary'\<close> is stored in it\<close>
  "create_schedule cfg alg sessions conference_dates =
     (let schedule = schedule_days cfg alg sessions conference_dates
      in \<lparr>days = schedule, the_summary = generate_schedule_summary schedule\<rparr>)"

section \<open>Session scorer\<close>

record scoring_weights_t =
  keyword_relevance :: rat
  session_level :: rat
  venue_convenience :: rat
  speaker_reputation :: rat
  session_uniqueness :: rat

record session_scorer =
  scoring_weights :: scoring_weights_t
  venue_convenience_scores :: "(string \<times> rat) list"
  level_scores :: "(string \<times> rat) list"

definition SessionScorer_init :: session_scorer where
  \<comment> \<open>the constructor has no parameter and no failing path\<close>
  "SessionScorer_init =
     \<lparr>scoring_weights =
        \<lparr>keyword_relevance = 40 / 100, session_level = 20 / 100, venue_convenience = 20 / 100,
         speaker_reputation = 10 / 100, session_uniqueness = 10 / 100\<rparr>,
      venue_convenience_scores =
        [(''venetian'', 9 / 10), (''palazzo'', 9 / 10), (''wynn'', 8 / 10), (''encore'', 8 / 10),
         (''aria'', 7 / 10), (''bellagio'', 7 / 10), (''caesars'', 6 / 10), (''mirage'', 6 / 10),
         (''treasure island'', 5 / 10), (''flamingo'', 5 / 10), (''linq'', 4 / 10),
         (''paris'', 4 / 10), (''bally'', 3 / 10), (''harrah'', 3 / 10), (''rio'', 2 / 10),
         (''orleans'', 2 / 10), (''mgm grand'', 0), (''mandalay bay'', 0)],
      level_scores =
        [(''beginner'', 6 / 10), (''intermediate'', 1), (''advanced'', 8 / 10),
         (''expert'', 7 / 10)]\<rparr>"


definition score_keyword_relevance :: "session \<Rightarrow> rat" where
  "score_keyword_relevance s =
     (let matched_keywords = keywords_matched s
      in if matched_keywords = [] then 0
         else
          (let base_score = 5 / 10;
               match_bonus = min (3 / 10) (of_nat (length matched_keywords) * (1 / 10));
               t = lower (title s);
               title_bonus = fold (\<lambda>k acc. if str_in k t then acc + 1 / 10 else acc)
                               matched_keywords 0
           in min 1 (base_score + match_bonus + min (2 / 10) title_bonus)))"

definition score_session_level :: "session_scorer \<Rightarrow> session \<Rightarrow> rat" where
  "score_session_level sc s =
     (let l = lower (level s)
      in if l = [] then 5 / 10
         else (case map_of (level_scores sc) l of None \<Rightarrow> 5 / 10 | Some v \<Rightarrow> v))"

definition score_venue_convenience :: "session_scorer \<Rightarrow> session \<Rightarrow> rat" where
  "score_venue_convenience sc s =
     (let v = lower (venue s)
      in if v = [] then 5 / 10
         else fold (\<lambda>(venue_name, sc_v) best_score.
                      if str_in venue_name v then max best_score sc_v else best_score)
                (venue_convenience_scores sc) (5 / 10))"

definition aws_indicators :: "string list" where
  "aws_indicators = [''aws'', ''amazon'', ''principal'', ''senior'']"

definition score_speaker_reputation :: "session \<Rightarrow> rat" where
  "score_speaker_reputation s =
     (let sp = speakers s
      in if sp = [] then 5 / 10
         else
          (let speaker_count_bonus = min (3 / 10) (of_nat (length sp) * (1 / 10));
               aws_bonus = fold (\<lambda>speaker acc.
                                   if list_ex (\<lambda>i. str_in i (lower speaker)) aws_indicators
                                   then acc + 1 / 10 else acc) sp 0
           in min 1 (5 / 10 + speaker_count_bonus + min (2 / 10) aws_bonus)))"

definition unique_indicators :: "string list" where
  "unique_indicators =
     [''new'', ''preview'', ''announcement'', ''launch'', ''exclusive'',
      ''deep dive'', ''hands-on'', ''workshop'', ''lab'', ''demo'',
      ''case study'', ''real-world'', ''production'', ''scale'']"

definition score_session_uniqueness :: "session \<Rightarrow> rat" where
  "score_session_uniqueness s =
     (let t = lower (title s);
          d = lower (description s)
      in min 1 (fold (\<lambda>indicator u.
                        if str_in indicator t then u + 1 / 10
                        else if str_in indicator d then u + 5 / 100 else u)
                  unique_indicators (5 / 10)))"

definition weighted_total :: "session_scorer \<Rightarrow> session \<Rightarrow> rat" where
  "weighted_total sc s =
     score_keyword_relevance s * keyword_relevance (scoring_weights sc) +
     score_session_level sc s * session_level (scoring_weights sc) +
     score_venue_convenience sc s * venue_convenience (scoring_weights sc) +
     score_speaker_reputation s * speaker_reputation (scoring_weights sc) +
     score_session_uniqueness s * session_uniqueness (scoring_weights sc)"

definition calculate_session_score :: "session_scorer \<Rightarrow> session \<Rightarrow> rat" where
  \<comment> \<open>the \<open>total_score\<close> of the breakdown\<close>
  "calculate_session_score sc s = py_round (weighted_total sc s) 3"

definition run_schedule :: "config \<Rightarrow> session list \<Rightarrow> string list \<Rightarrow> schedule_result option" where
  \<comment> \<open>\<open>SchedulingAlgorithm().create_schedule(sessions, conference_dates)\<close>\<close>
  "run_schedule cfg sessions conference_dates =
     map_option (\<lambda>alg. create_schedule cfg alg sessions conference_dates)
       (SchedulingAlgorithm_init cfg)"

section \<open>Notions used in the statements\<close>

definition default_algorithm :: scheduling_algorithm where
  \<comment> \<open>what the constructor builds from \<open>Config\<close>: lunch from minute 660 to minute 780\<close>
  "default_algorithm =
     \<lparr>the_conflict_resolver = \<lparr>cr_buffer_minutes = 30\<rparr>,
      the_backup_generator = \<lparr>min_backup_sessions = 2\<rparr>,
      lunch_start = 660, lunch_end = 780, buffer_minutes = 30, max_sessions_per_day = 8\<rparr>"

definition plain_session :: "string \<Rightarrow> string \<Rightarrow> string \<Rightarrow> string \<Rightarrow> rat \<Rightarrow> session" where
  \<comment> \<open>a session with an id, a date, a start, an end and a score, at the Venetian\<close>
  "plain_session i d st en sc =
     \<lparr>session_id = Some i, title = [], description = [], date = Some d,
      start_time = Some st, end_time = Some en, venue = ''Venetian'', level = [],
      speakers = [], keywords_matched = [], score = sc, time_slot = None,
      scheduled_start = None, scheduled_end = None, backup_score = None\<rparr>"

definition mgm_session :: session where
  "mgm_session = (plain_session ''S1'' ''2025-12-01'' ''09:00'' ''10:00'' 0)\<lparr>venue := ''MGM Grand''\<rparr>"

definition two_days :: "session list" where
  \<comment> \<open>one session on each of two conference dates\<close>
  "two_days =
     [plain_session ''A'' ''2025-12-01'' ''09:00'' ''10:00'' (8 / 10),
      plain_session ''B'' ''2025-12-02'' ''09:00'' ''10:00'' (7 / 10)]"

definition lunch_day :: "session list" where
  \<comment> \<open>three sessions of one day; the third one runs into the lunch break\<close>
  "lunch_day =
     [plain_session ''A'' ''2025-12-01'' ''09:00'' ''10:00'' (8 / 10),
      plain_session ''B'' ''2025-12-01'' ''10:00'' ''11:00'' (7 / 10),
      plain_session ''C'' ''2025-12-01'' ''10:30'' ''11:30'' (6 / 10)]"


definition top_session :: session where
  \<comment> \<open>a session that earns the base 0.7 and every bonus in full on the slot 14:00-15:00\<close>
  "top_session =
     (plain_session ''T'' ''2025-12-01'' ''14:00'' ''15:00'' 1)
       \<lparr>keywords_matched := [''AI'', ''Architect'', ''Lakehouse'', ''DevOps'']\<rparr>"

definition afternoon_slot :: slot where
  "afternoon_slot = new_slot default_algorithm ''2025-12-01'' 0 ''14:00'' ''15:00''"

definition slot_range :: "slot \<Rightarrow> string \<times> string" where
  "slot_range sl = (slot_start sl, slot_end sl)"

definition no_overlap :: "slot \<Rightarrow> slot \<Rightarrow> bool" where
  \<comment> \<open>the later slot passed the overlap test against the earlier one\<close>
  "no_overlap earlier later =
     (\<not> times_overlap (slot_start later) (slot_end later) (slot_start earlier) (slot_end earlier))"

definition accepted_slots :: "scheduling_algorithm \<Rightarrow> session list \<Rightarrow> string \<Rightarrow> slot list" where
  \<comment> \<open>the slots accepted by the loop, before the list is cut to the daily maximum\<close>
  "accepted_slots alg sessions d = slots_loop alg d [] (sort (collect_session_times sessions))"

definition untimed_session :: session where
  \<comment> \<open>a session with neither a start nor an end\<close>
  "untimed_session =
     (plain_session ''N'' ''2025-12-01'' [] [] (5 / 10))\<lparr>start_time := None, end_time := None\<rparr>"

definition buffered_conflict :: "conflict_resolver \<Rightarrow> session \<Rightarrow> session \<Rightarrow> bool" where
  "buffered_conflict cr s p =
     (case (scheduled_start s, scheduled_end s) of
        (Some cs, Some ce) \<Rightarrow> cs \<noteq> [] \<and> ce \<noteq> [] \<and> conflicts_with_prev cr cs ce p
      | _ \<Rightarrow> False)"

definition scenario_c :: "session list" where
  \<comment> \<open>two primaries of one day, 09:00-10:00 and 10:15-11:00\<close>
  "scenario_c =
     [assign_slot (plain_session ''A'' ''2025-12-01'' ''09:00'' ''10:00'' (8 / 10))
        (new_slot default_algorithm ''2025-12-01'' 0 ''09:00'' ''10:00''),
      assign_slot (plain_session ''B'' ''2025-12-01'' ''10:15'' ''11:00'' (7 / 10))
        (new_slot default_algorithm ''2025-12-01'' 1 ''10:15'' ''11:00'')]"

definition eligible :: "string option set \<Rightarrow> slot \<Rightarrow> session list \<Rightarrow> session list" where
  \<comment> \<open>the sessions not yet used whose start and end are exactly those of the slot,
      in the order of the input\<close>
  "eligible used sl sessions =
     filter (\<lambda>s. session_id s \<notin> used \<and> start_time s = Some (slot_start sl) \<and>
                 end_time s = Some (slot_end sl)) sessions"

definition first_highest :: "session list \<Rightarrow> session option" where
  \<comment> \<open>the first session of the list whose score no session of the list exceeds\<close>
  "first_highest cands = find (\<lambda>c. \<forall>c' \<in> set cands. score c' \<le> score c) cands"

definition tie_day :: "session list" where
  \<comment> \<open>two sessions with the same time and score, and a later one\<close>
  "tie_day =
     [plain_session ''A'' ''2025-12-01'' ''09:00'' ''10:00'' (8 / 10),
      plain_session ''B'' ''2025-12-01'' ''09:00'' ''10:00'' (8 / 10),
      plain_session ''C'' ''2025-12-01'' ''10:00'' ''11:00'' (5 / 10)]"

definition tie_slots :: "slot list" where
  \<comment> \<open>the second slot has no session with its times\<close>
  "tie_slots =
     [new_slot default_algorithm ''2025-12-01'' 0 ''09:00'' ''10:00'',
      new_slot default_algorithm ''2025-12-01'' 1 ''14:00'' ''15:00'',
      new_slot default_algorithm ''2025-12-01'' 2 ''10:00'' ''11:00'']"

definition better :: "session option \<times> rat \<Rightarrow> session \<Rightarrow> session option \<times> rat" where
  "better best s = (if snd best < score s then (Some s, score s) else best)"

definition within_30 :: "string option \<Rightarrow> string \<Rightarrow> bool" where
  \<comment> \<open>both times parse and differ by at most 30 minutes\<close>
  "within_30 t slot_t =
     (case t of
        None \<Rightarrow> False
      | Some x \<Rightarrow>
         (case (strptime_HM x, strptime_HM slot_t) of
            (Some a, Some b) \<Rightarrow> \<bar>int a - int b\<bar> \<le> 30
          | _ \<Rightarrow> False))"


definition clear_of_lunch :: "scheduling_algorithm \<Rightarrow> session \<Rightarrow> bool" where
  \<comment> \<open>a primary session: scheduled at its own times, which pass the lunch test\<close>
  "clear_of_lunch alg p =
     (\<exists>st en. scheduled_start p = Some st \<and> scheduled_end p = Some en \<and>
        start_time p = Some st \<and> end_time p = Some en \<and> \<not> is_lunch_time alg st en)"

definition lunch_overlap_within_tolerance :: "scheduling_algorithm \<Rightarrow> session \<Rightarrow> bool" where
  \<comment> \<open>a backup session: it starts no earlier than 30 minutes before the end of lunch, or
      ends no later than 30 minutes after its start\<close>
  "lunch_overlap_within_tolerance alg b =
     (\<exists>st en s e. start_time b = Some st \<and> end_time b = Some en \<and>
        strptime_HM st = Some s \<and> strptime_HM en = Some e \<and>
        (lunch_end alg \<le> s + 30 \<or> e \<le> lunch_start alg + 30))"

definition overlap_day :: "session list" where
  \<comment> \<open>three sessions whose ranges overlap: only the first range becomes a slot\<close>
  "overlap_day =
     [plain_session ''U'' ''2025-12-01'' ''09:00'' ''10:00'' (8 / 10),
      plain_session ''V'' ''2025-12-01'' ''09:30'' ''10:30'' (9 / 10),
      plain_session ''W'' ''2025-12-01'' ''09:00'' ''10:00'' (7 / 10)]"

definition chain_day :: "session list" where
  \<comment> \<open>three primaries, out of order: the middle one conflicts with both others, which do
      not conflict with each other\<close>
  "chain_day =
     [assign_slot (plain_session ''Z'' ''2025-12-01'' ''16:10'' ''17:00'' (6 / 10))
        (new_slot default_algorithm ''2025-12-01'' 2 ''16:10'' ''17:00''),
      assign_slot (plain_session ''Y'' ''2025-12-01'' ''15:15'' ''16:00'' (7 / 10))
        (new_slot default_algorithm ''2025-12-01'' 1 ''15:15'' ''16:00''),
      assign_slot (plain_session ''X'' ''2025-12-01'' ''14:00'' ''15:00'' (8 / 10))
        (new_slot default_algorithm ''2025-12-01'' 0 ''14:00'' ''15:00'')]"

section \<open>Backup score\<close>

lemma half_sum_le:
  fixes x y :: rat
  shows "max 0 (1 / 5 - \<bar>x\<bar> / 600) * 5 + max 0 (1 / 5 - \<bar>y\<bar> / 600) * 5 \<le> 2"
  by (auto simp: max_def)

lemma time_bonus_le: "calculate_time_compatibility_bonus s sl \<le> 2 / 10"
  unfolding calculate_time_compatibility_bonus_def Let_def
  by (simp split: option.splits prod.splits add: half_sum_le)

lemma diversity_bonus_le: "calculate_diversity_bonus s \<le> 15 / 100"
  unfolding calculate_diversity_bonus_def Let_def by (rule min.cobounded1)

lemma first_venue_bonus_le:
  "\<forall>(n, b) \<in> set tbl. b \<le> 1 / 10 \<Longrightarrow> first_venue_bonus tbl v \<le> 1 / 10"
  by (induction tbl v rule: first_venue_bonus.induct) auto

lemma venue_bonus_le: "calculate_venue_bonus s \<le> 1 / 10"
  unfolding calculate_venue_bonus_def
  by (rule first_venue_bonus_le) (simp add: venue_bonus_table_def)

lemma backup_score_le: "calculate_backup_score c sl \<le> 1"
  unfolding calculate_backup_score_def Let_def by simp

lemma set_py_slice_to: "set (py_slice_to xs n) \<subseteq> set xs"
  unfolding py_slice_to_def by (auto dest: in_set_takeD)

lemma set_sorted_reverse [simp]: "set (sorted_reverse f xs) = set xs"
  unfolding sorted_reverse_def by simp

lemma set_rank:
  "set (rank_backup_candidates cands sl) =
     (\<lambda>c. c\<lparr>backup_score := Some (calculate_backup_score c sl)\<rparr>) ` set cands"
  unfolding rank_backup_candidates_def by auto

lemma select_backups_elem:
  assumes "b \<in> set (select_backups bg all_sessions ids sl)"
  shows "\<exists>c \<in> set (find_candidate_sessions all_sessions (slot_start sl) (slot_end sl) ids).
           b = c\<lparr>backup_score := Some (calculate_backup_score c sl)\<rparr>"
  using assms set_py_slice_to unfolding select_backups_def Let_def
  by (fastforce simp: set_rank)

text \<open>
  C10. The backup score of a candidate for a slot is the sum of 0.7 times its score and
  the three bonuses, cut off at 1: it never exceeds 1, although the bonuses alone may reach
  0.2, 0.15 and 0.1. Every session of the list selected for a slot carries such a score.
\<close>

theorem backup_score_never_exceeds_one:
  "calculate_backup_score c sl \<le> 1 \<and>
   calculate_backup_score c sl =
     min 1 (score c * (7 / 10) + calculate_time_compatibility_bonus c sl +
            calculate_diversity_bonus c + calculate_venue_bonus c) \<and>
   calculate_time_compatibility_bonus c sl \<le> 2 / 10 \<and>
   calculate_diversity_bonus c \<le> 15 / 100 \<and>
   calculate_venue_bonus c \<le> 1 / 10 \<and>
   (\<forall>b \<in> set (select_backups bg all_sessions ids sl).
      \<exists>v. backup_score b = Some v \<and> v \<le> 1)"
proof -
  have "\<exists>v. backup_score b = Some v \<and> v \<le> 1"
    if "b \<in> set (select_backups bg all_sessions ids sl)" for b
    using select_backups_elem [OF that] backup_score_le by auto
  moreover have "calculate_backup_score c sl =
     min 1 (score c * (7 / 10) + calculate_time_compatibility_bonus c sl +
            calculate_diversity_bonus c + calculate_venue_bonus c)"
    by (simp add: calculate_backup_score_def Let_def)
  ultimately show ?thesis
    using backup_score_le time_bonus_le diversity_bonus_le venue_bonus_le by blast
qed

text \<open>
  At \<open>top_session\<close> the sum before the cut is 1.15 and the score stored is 1.
\<close>

theorem backup_score_never_exceeds_one_witness:
  "score top_session * (7 / 10) + calculate_time_compatibility_bonus top_session afternoon_slot +
     calculate_diversity_bonus top_session + calculate_venue_bonus top_session = 115 / 100 \<and>
   calculate_backup_score top_session afternoon_slot \<le> 1 \<and>
   top_session\<lparr>backup_score := Some 1\<rparr>
     \<in> set (select_backups \<lparr>min_backup_sessions = 2\<rparr> [top_session] {} afternoon_slot) \<and>
   (\<exists>v. backup_score (top_session\<lparr>backup_score := Some 1\<rparr>) = Some v \<and> v \<le> 1)"
proof -
  have a: "score top_session * (7 / 10) +
      calculate_time_compatibility_bonus top_session afternoon_slot +
      calculate_diversity_bonus top_session + calculate_venue_bonus top_session = 115 / 100"
    by code_simp
  have b: "top_session\<lparr>backup_score := Some 1\<rparr>
     \<in> set (select_backups \<lparr>min_backup_sessions = 2\<rparr> [top_session] {} afternoon_slot)"
    by code_simp
  show ?thesis
    using a b
      backup_score_never_exceeds_one
        [of top_session afternoon_slot "\<lparr>min_backup_sessions = 2\<rparr>" "[top_session]" "{}"]
    by blast
qed

section \<open>Times that do not parse\<close>

text \<open>
  C9. When one of the four time strings of a test does not parse as \<open>%H:%M\<close>, the
  buffered-overlap test of the conflict resolver and the compatibility test of the backup
  generator both answer \<open>False\<close>. Both are total functions into \<open>bool\<close>: the exception
  never leaves them.
\<close>

theorem unparsable_time_is_no_conflict:
  assumes "strptime_HM start1 = None \<or> strptime_HM end1 = None \<or>
           strptime_HM start2 = None \<or> strptime_HM end2 = None"
  shows "\<not> sessions_conflict cr start1 end1 start2 end2 \<and>
         \<not> times_are_compatible start1 end1 start2 end2"
  using assms unfolding sessions_conflict_def times_are_compatible_def
  by (auto split: option.splits)

theorem unparsable_time_is_no_conflict_witness:
  "strptime_HM ''10:75'' = None \<and>
   \<not> sessions_conflict ConflictResolver_init ''09:00'' ''10:75'' ''09:00'' ''10:00'' \<and>
   \<not> times_are_compatible ''09:00'' ''10:75'' ''09:00'' ''10:00''"
proof -
  have h: "strptime_HM ''10:75'' = None" by code_simp
  then have "strptime_HM ''09:00'' = None \<or> strptime_HM ''10:75'' = None \<or>
             strptime_HM ''09:00'' = None \<or> strptime_HM ''10:00'' = None"
    by blast
  from unparsable_time_is_no_conflict [OF this, of ConflictResolver_init] h
  show ?thesis by blast
qed

section \<open>Venue convenience\<close>

lemma fold_max_ge:
  "(b :: rat) \<le> fold (\<lambda>(venue_name, sc_v) best_score.
                  if str_in venue_name v then max best_score sc_v else best_score) tbl b"
proof (induction tbl arbitrary: b)
  case Nil
  then show ?case by simp
next
  case (Cons p tbl)
  obtain n w where p: "p = (n, w)" by (cases p)
  have "b \<le> (if str_in n v then max b w else b)" by simp
  also have "\<dots> \<le> fold (\<lambda>(venue_name, sc_v) best_score.
                  if str_in venue_name v then max best_score sc_v else best_score) tbl
                (if str_in n v then max b w else b)"
    by (rule Cons.IH)
  finally show ?case by (simp add: p)
qed

lemma venue_score_at_least_half: "1 / 2 \<le> score_venue_convenience sc s"
  unfolding score_venue_convenience_def Let_def
  using fold_max_ge [of "5 / 10" "lower (venue s)" "venue_convenience_scores sc"]
  by simp

text \<open>
  C3. The venue component starts from 0.5 and only ever takes the maximum with a table
  entry, so the entries below 0.5, the excluded venues at 0.0 among them, have no effect:
  a session at the MGM Grand gets 0.5, not 0.0, and no session gets less than 0.5.
\<close>

theorem excluded_venue_scores_one_half:
  "str_in ''mgm grand'' (lower (venue mgm_session)) \<and>
   map_of (venue_convenience_scores SessionScorer_init) ''mgm grand'' = Some 0 \<and>
   score_venue_convenience SessionScorer_init mgm_session = 1 / 2 \<and>
   1 / 2 \<le> score_venue_convenience sc s"
proof -
  have "str_in ''mgm grand'' (lower (venue mgm_session)) \<and>
   map_of (venue_convenience_scores SessionScorer_init) ''mgm grand'' = Some 0 \<and>
   score_venue_convenience SessionScorer_init mgm_session = 1 / 2"
    by code_simp
  with venue_score_at_least_half [of sc s] show ?thesis by blast
qed

section \<open>Schedule efficiency\<close>

text \<open>
  C2. The summary is computed before the key \<open>'summary'\<close> is stored, so the dict holds
  the dates only and \<open>len(schedule) - 1\<close> is one less than their number: with one session
  scheduled on each of two dates the efficiency is 2 / 1 = 2.0, not 2 / 2 = 1.0, and with
  a single date it is 0, not 1 / 1 = 1.0.
\<close>

theorem efficiency_divides_by_one_date_less:
  "map_option
     (\<lambda>r. (total_conference_days (the_summary r), total_scheduled_sessions (the_summary r),
           schedule_efficiency (the_summary r)))
     (run_schedule Config two_days [''2025-12-01'', ''2025-12-02'']) = Some (2, 2, 2) \<and>
   py_round (2 / 2) 1 = 1 \<and>
   map_option
     (\<lambda>r. (total_conference_days (the_summary r), total_scheduled_sessions (the_summary r),
           schedule_efficiency (the_summary r)))
     (run_schedule Config two_days [''2025-12-01'']) = Some (1, 1, 0) \<and>
   py_round (1 / 1) 1 = 1"
  by code_simp

section \<open>Construction of the scorer\<close>



section \<open>Time slot builder\<close>

lemma set_collect_session_times:
  "set (collect_session_times sessions) =
     {(st, en). st \<noteq> [] \<and> en \<noteq> [] \<and>
        (\<exists>s \<in> set sessions. start_time s = Some st \<and> end_time s = Some en)}"
  unfolding collect_session_times_def
  by (auto split: option.splits if_splits)

lemma slots_loop_extends:
  "\<exists>new. slots_loop alg d acc ps = acc @ new \<and> subseq (map slot_range new) ps"
proof (induction ps arbitrary: acc)
  case Nil
  then show ?case by simp
next
  case (Cons p ps)
  obtain st en where p: "p = (st, en)" by (cases p)
  show ?case
  proof (cases "is_lunch_time alg st en \<or>
      list_ex (\<lambda>existing. times_overlap st en (slot_start existing) (slot_end existing)) acc")
    case True
    with Cons.IH [of acc] p show ?thesis by (auto intro: subseq_Cons')
  next
    case False
    from Cons.IH [of "acc @ [new_slot alg d (length acc) st en]"]
    obtain new where n: "slots_loop alg d (acc @ [new_slot alg d (length acc) st en]) ps =
        (acc @ [new_slot alg d (length acc) st en]) @ new"
      "subseq (map slot_range new) ps" by blast
    have "slot_range (new_slot alg d (length acc) st en) = (st, en)"
      by (simp add: slot_range_def new_slot_def)
    with n False p show ?thesis
      by (intro exI [of _ "new_slot alg d (length acc) st en # new"]) simp
  qed
qed

lemma slots_loop_superset: "set acc \<subseteq> set (slots_loop alg d acc ps)"
  using slots_loop_extends [of alg d acc ps] by auto



lemma slots_loop_step:
  "slots_loop alg d acc ((st, en) # ps) =
     (if is_lunch_time alg st en \<or>
         (\<exists>ex \<in> set acc. times_overlap st en (slot_start ex) (slot_end ex))
      then slots_loop alg d acc ps
      else slots_loop alg d (acc @ [new_slot alg d (length acc) st en]) ps)"
  by (simp add: list_ex_iff)

lemma new_slot_fields [simp]:
  "slot_start (new_slot alg d n st en) = st"
  "slot_end (new_slot alg d n st en) = en"
  "slot_id (new_slot alg d n st en) = ''slot_'' @ digits_of (n + 1)"
  by (simp_all add: new_slot_def)

lemma slots_loop_no_lunch:
  assumes "\<forall>sl \<in> set acc. \<not> is_lunch_time alg (slot_start sl) (slot_end sl)"
  shows "\<forall>sl \<in> set (slots_loop alg d acc ps). \<not> is_lunch_time alg (slot_start sl) (slot_end sl)"
  using assms
proof (induction ps arbitrary: acc)
  case Nil
  then show ?case by simp
next
  case (Cons p ps)
  obtain st en where p: "p = (st, en)" by (cases p)
  show ?case
  proof (cases "is_lunch_time alg st en \<or>
         (\<exists>ex \<in> set acc. times_overlap st en (slot_start ex) (slot_end ex))")
    case True
    then have "slots_loop alg d acc (p # ps) = slots_loop alg d acc ps"
      unfolding p slots_loop_step by simp
    with Cons.IH [OF Cons.prems] show ?thesis by simp
  next
    case False
    then have e: "slots_loop alg d acc (p # ps) =
        slots_loop alg d (acc @ [new_slot alg d (length acc) st en]) ps"
      unfolding p slots_loop_step by simp
    have "\<forall>sl \<in> set (acc @ [new_slot alg d (length acc) st en]).
            \<not> is_lunch_time alg (slot_start sl) (slot_end sl)"
      using False Cons.prems by simp
    from Cons.IH [OF this] e show ?thesis by simp
  qed
qed

lemma slots_loop_pairwise:
  assumes "sorted_wrt no_overlap acc"
  shows "sorted_wrt no_overlap (slots_loop alg d acc ps)"
  using assms
proof (induction ps arbitrary: acc)
  case Nil
  then show ?case by simp
next
  case (Cons p ps)
  obtain st en where p: "p = (st, en)" by (cases p)
  show ?case
  proof (cases "is_lunch_time alg st en \<or>
         (\<exists>ex \<in> set acc. times_overlap st en (slot_start ex) (slot_end ex))")
    case True
    then have "slots_loop alg d acc (p # ps) = slots_loop alg d acc ps"
      unfolding p slots_loop_step by simp
    with Cons.IH [OF Cons.prems] show ?thesis by simp
  next
    case False
    then have e: "slots_loop alg d acc (p # ps) =
        slots_loop alg d (acc @ [new_slot alg d (length acc) st en]) ps"
      unfolding p slots_loop_step by simp
    have "\<forall>x \<in> set acc. no_overlap x (new_slot alg d (length acc) st en)"
      using False by (simp add: no_overlap_def)
    then have "sorted_wrt no_overlap (acc @ [new_slot alg d (length acc) st en])"
      using Cons.prems by (simp add: sorted_wrt_append)
    from Cons.IH [OF this] e show ?thesis by simp
  qed
qed

lemma slots_loop_complete:
  assumes "(st, en) \<in> set ps"
  shows "(st, en) \<in> slot_range ` set (slots_loop alg d acc ps) \<or> is_lunch_time alg st en \<or>
      (\<exists>ex \<in> set (slots_loop alg d acc ps). times_overlap st en (slot_start ex) (slot_end ex))"
  using assms
proof (induction ps arbitrary: acc)
  case Nil
  then show ?case by simp
next
  case (Cons p ps)
  obtain st' en' where p: "p = (st', en')" by (cases p)
  let ?new = "new_slot alg d (length acc) st' en'"
  let ?rej = "is_lunch_time alg st' en' \<or>
         (\<exists>ex \<in> set acc. times_overlap st' en' (slot_start ex) (slot_end ex))"
  show ?case
  proof (cases "(st, en) \<in> set ps")
    case True
    have "slots_loop alg d acc (p # ps) = slots_loop alg d acc ps \<or>
          slots_loop alg d acc (p # ps) = slots_loop alg d (acc @ [?new]) ps"
      unfolding p slots_loop_step by simp
    with Cons.IH [OF True, of acc] Cons.IH [OF True, of "acc @ [?new]"]
    show ?thesis by metis
  next
    case False
    with Cons.prems p have eq: "st' = st" "en' = en" by auto
    show ?thesis
    proof (cases ?rej)
      case True
      then have e: "slots_loop alg d acc (p # ps) = slots_loop alg d acc ps"
        unfolding p slots_loop_step by simp
      from True show ?thesis
      proof
        assume "is_lunch_time alg st' en'"
        then show ?thesis using eq by simp
      next
        assume "\<exists>ex \<in> set acc. times_overlap st' en' (slot_start ex) (slot_end ex)"
        then obtain ex where "ex \<in> set acc" "times_overlap st en (slot_start ex) (slot_end ex)"
          using eq by auto
        moreover have "set acc \<subseteq> set (slots_loop alg d acc ps)" by (rule slots_loop_superset)
        ultimately show ?thesis unfolding e by blast
      qed
    next
      case False
      then have e: "slots_loop alg d acc (p # ps) = slots_loop alg d (acc @ [?new]) ps"
        unfolding p slots_loop_step by simp
      have "?new \<in> set (slots_loop alg d (acc @ [?new]) ps)"
        using slots_loop_superset [of "acc @ [?new]" alg d ps] by auto
      moreover have "slot_range ?new = (st, en)" using eq by (simp add: slot_range_def)
      ultimately have "(st, en) \<in> slot_range ` set (slots_loop alg d (acc @ [?new]) ps)"
        by (metis imageI)
      then show ?thesis unfolding e by simp
    qed
  qed
qed


lemma sorted_wrt_subseq:
  assumes "subseq xs ys" "sorted_wrt P ys"
  shows "sorted_wrt P xs"
  using assms
proof (induction rule: list_emb.induct)
  case (list_emb_Nil ys)
  then show ?case by simp
next
  case (list_emb_Cons xs ys y)
  then show ?case by simp
next
  case (list_emb_Cons2 x y xs ys)
  have "P x z" if "z \<in> set xs" for z
  proof -
    from list_emb_set [OF list_emb_Cons2.hyps(2) that] have "z \<in> set ys" by auto
    with list_emb_Cons2.prems list_emb_Cons2.hyps(1) show ?thesis by simp
  qed
  with list_emb_Cons2 show ?case by simp
qed

lemma accepted_subseq:
  "subseq (map slot_range (accepted_slots alg sessions d)) (sort (collect_session_times sessions))"
  using slots_loop_extends [of alg d "[]" "sort (collect_session_times sessions)"]
  unfolding accepted_slots_def by auto

lemma sorted_fst: "sorted (xs :: (string \<times> string) list) \<Longrightarrow> sorted (map fst xs)"
  by (induction xs) (auto simp: less_eq_prod_def)

lemma py_slice_to_length: "0 \<le> n \<Longrightarrow> length (py_slice_to xs n) \<le> nat n"
  by (simp add: py_slice_to_def)

lemma py_slice_to_Nil [simp]: "py_slice_to [] n = []"
  by (simp add: py_slice_to_def)

lemma times_overlap_iff:
  "times_overlap t1 t2 t3 t4 =
     (\<exists>s1 e1 s2 e2. strptime_HM t1 = Some s1 \<and> strptime_HM t2 = Some e1 \<and>
        strptime_HM t3 = Some s2 \<and> strptime_HM t4 = Some e2 \<and> s1 < e2 \<and> s2 < e1)"
  by (auto simp: times_overlap_def split: option.splits)

lemma is_lunch_time_iff:
  "is_lunch_time alg t1 t2 =
     (\<exists>s e. strptime_HM t1 = Some s \<and> strptime_HM t2 = Some e \<and>
        s < lunch_end alg \<and> lunch_start alg < e)"
  by (auto simp: is_lunch_time_def split: option.splits)

lemma slots_loop_append:
  "slots_loop alg d acc (xs @ ys) = slots_loop alg d (slots_loop alg d acc xs) ys"
proof (induction xs arbitrary: acc)
  case Nil
  then show ?case by simp
next
  case (Cons p xs)
  obtain st en where p: "p = (st, en)" by (cases p)
  show ?case unfolding p append_Cons slots_loop_step by (simp add: Cons.IH)
qed

lemma slots_loop_snoc:
  "slots_loop alg d [] (pre @ [(st, en)]) =
     (if is_lunch_time alg st en \<or>
         (\<exists>ex \<in> set (slots_loop alg d [] pre).
            times_overlap st en (slot_start ex) (slot_end ex))
      then slots_loop alg d [] pre
      else slots_loop alg d [] pre @
             [new_slot alg d (length (slots_loop alg d [] pre)) st en])"
  unfolding slots_loop_append slots_loop_step by simp

text \<open>
  C8. The slot builder collects the (start, end) pairs of the sessions that have both,
  sorts them, and scans them in order. A range overlaps the lunch window when both its
  times parse and \<open>start < lunch_end\<close> and \<open>lunch_start < end\<close>; two ranges overlap when
  all four times parse and \<open>start1 < end2\<close> and \<open>start2 < end1\<close>. After any prefix of the
  sorted pairs, the next range is skipped when it overlaps the lunch window or a slot
  accepted so far, and is appended as a new slot with its own times otherwise. So the
  accepted slots are a subsequence of the sorted pairs (they ascend by start), none overlaps
  the lunch window, none overlaps an earlier accepted slot, and every pair that was not
  accepted overlaps the lunch window or an accepted slot. The result is the accepted list
  cut to the daily maximum, and it is empty, not an error, when no session has both a
  start and an end.
\<close>

theorem slot_builder_accepts_in_order:
  "set (collect_session_times sessions) =
     {(st, en). st \<noteq> [] \<and> en \<noteq> [] \<and>
        (\<exists>s \<in> set sessions. start_time s = Some st \<and> end_time s = Some en)} \<and>
   generate_time_slots alg sessions d =
     py_slice_to (accepted_slots alg sessions d) (max_sessions_per_day alg) \<and>
   subseq (map slot_range (accepted_slots alg sessions d))
     (sort (collect_session_times sessions)) \<and>
   sorted (map slot_start (accepted_slots alg sessions d)) \<and>
   (\<forall>sl \<in> set (accepted_slots alg sessions d).
      \<not> is_lunch_time alg (slot_start sl) (slot_end sl)) \<and>
   sorted_wrt no_overlap (accepted_slots alg sessions d) \<and>
   (\<forall>(st, en) \<in> set (collect_session_times sessions).
      (st, en) \<in> slot_range ` set (accepted_slots alg sessions d) \<or>
      is_lunch_time alg st en \<or>
      (\<exists>ex \<in> set (accepted_slots alg sessions d).
         times_overlap st en (slot_start ex) (slot_end ex))) \<and>
   (0 \<le> max_sessions_per_day alg \<longrightarrow>
      length (generate_time_slots alg sessions d) \<le> nat (max_sessions_per_day alg)) \<and>
   ((\<forall>s \<in> set sessions. \<not> (truthy (start_time s) \<and> truthy (end_time s))) \<longrightarrow>
      generate_time_slots alg sessions d = []) \<and>
   times_overlap t1 t2 t3 t4 =
     (\<exists>s1 e1 s2 e2. strptime_HM t1 = Some s1 \<and> strptime_HM t2 = Some e1 \<and>
        strptime_HM t3 = Some s2 \<and> strptime_HM t4 = Some e2 \<and> s1 < e2 \<and> s2 < e1) \<and>
   is_lunch_time alg t1 t2 =
     (\<exists>s e. strptime_HM t1 = Some s \<and> strptime_HM t2 = Some e \<and>
        s < lunch_end alg \<and> lunch_start alg < e) \<and>
   slots_loop alg d [] (pre @ [(st, en)]) =
     (if is_lunch_time alg st en \<or>
         (\<exists>ex \<in> set (slots_loop alg d [] pre).
            times_overlap st en (slot_start ex) (slot_end ex))
      then slots_loop alg d [] pre
      else slots_loop alg d [] pre @
             [new_slot alg d (length (slots_loop alg d [] pre)) st en]) \<and>
   accepted_slots alg sessions d =
     slots_loop alg d [] (sort (collect_session_times sessions)) \<and>
   slot_range (new_slot alg d n st en) = (st, en)"
proof -
  let ?pairs = "sort (collect_session_times sessions)"
  let ?acc = "accepted_slots alg sessions d"
  have gen: "generate_time_slots alg sessions d = py_slice_to ?acc (max_sessions_per_day alg)"
    by (simp add: generate_time_slots_def accepted_slots_def Let_def)
  have sub: "subseq (map slot_range ?acc) ?pairs" by (rule accepted_subseq)
  have "sorted (map slot_range ?acc)"
    using sorted_wrt_subseq [OF sub] by simp
  then have "sorted (map fst (map slot_range ?acc))" by (rule sorted_fst)
  then have srt: "sorted (map slot_start ?acc)"
    by (simp add: slot_range_def comp_def)
  have nl: "\<forall>sl \<in> set ?acc. \<not> is_lunch_time alg (slot_start sl) (slot_end sl)"
    unfolding accepted_slots_def by (rule slots_loop_no_lunch) simp
  have pw: "sorted_wrt no_overlap ?acc"
    unfolding accepted_slots_def by (rule slots_loop_pairwise) simp
  have cp: "\<forall>(st, en) \<in> set (collect_session_times sessions).
      (st, en) \<in> slot_range ` set ?acc \<or> is_lunch_time alg st en \<or>
      (\<exists>ex \<in> set ?acc. times_overlap st en (slot_start ex) (slot_end ex))"
  proof (rule ballI)
    fix p
    assume a: "p \<in> set (collect_session_times sessions)"
    obtain st en where p: "p = (st, en)" by (cases p)
    from a p have "(st, en) \<in> set ?pairs" by simp
    from slots_loop_complete [OF this, of alg d "[]"]
    show "case p of (st, en) \<Rightarrow>
      (st, en) \<in> slot_range ` set ?acc \<or> is_lunch_time alg st en \<or>
      (\<exists>ex \<in> set ?acc. times_overlap st en (slot_start ex) (slot_end ex))"
      unfolding accepted_slots_def p by simp
  qed
  have len: "0 \<le> max_sessions_per_day alg \<longrightarrow>
      length (generate_time_slots alg sessions d) \<le> nat (max_sessions_per_day alg)"
    unfolding gen by (simp add: py_slice_to_length)
  have emp: "(\<forall>s \<in> set sessions. \<not> (truthy (start_time s) \<and> truthy (end_time s))) \<longrightarrow>
      generate_time_slots alg sessions d = []"
  proof
    assume a: "\<forall>s \<in> set sessions. \<not> (truthy (start_time s) \<and> truthy (end_time s))"
    have "set (collect_session_times sessions) = {}"
      unfolding set_collect_session_times using a by (auto simp: truthy_def)
    then show "generate_time_slots alg sessions d = []"
      by (simp add: generate_time_slots_def)
  qed
  have rng: "slot_range (new_slot alg d n st en) = (st, en)"
    by (simp add: slot_range_def)
  show ?thesis
    by (intro conjI set_collect_session_times gen sub srt nl pw cp len emp
        times_overlap_iff is_lunch_time_iff slots_loop_snoc accepted_slots_def rng)
qed

theorem slot_builder_accepts_in_order_witness:
  "map slot_range (generate_time_slots default_algorithm lunch_day ''2025-12-01'') =
     [(''09:00'', ''10:00''), (''10:00'', ''11:00'')] \<and>
   (''10:30'', ''11:30'') \<in> set (collect_session_times lunch_day) \<and>
   is_lunch_time default_algorithm ''10:30'' ''11:30'' \<and>
   generate_time_slots default_algorithm [untimed_session] ''2025-12-01'' = [] \<and>
   map slot_range (generate_time_slots default_algorithm overlap_day ''2025-12-01'') =
     [(''09:00'', ''10:00'')] \<and>
   (''09:30'', ''10:30'') \<in> set (collect_session_times overlap_day) \<and>
   (''09:30'', ''10:30'') \<notin>
      slot_range ` set (accepted_slots default_algorithm overlap_day ''2025-12-01'') \<and>
   \<not> is_lunch_time default_algorithm ''09:30'' ''10:30'' \<and>
   (\<exists>ex \<in> set (accepted_slots default_algorithm overlap_day ''2025-12-01'').
      times_overlap ''09:30'' ''10:30'' (slot_start ex) (slot_end ex)) \<and>
   times_overlap ''09:30'' ''10:30'' ''09:00'' ''10:00'' \<and>
   \<not> times_overlap ''10:00'' ''11:00'' ''09:00'' ''10:00''"
proof -
  have g: "map slot_range (generate_time_slots default_algorithm lunch_day ''2025-12-01'') =
     [(''09:00'', ''10:00''), (''10:00'', ''11:00'')]"
    by code_simp
  have m: "(''10:30'', ''11:30'') \<in> set (collect_session_times lunch_day)"
    by code_simp
  have p: "strptime_HM ''10:30'' = Some 630 \<and> strptime_HM ''11:30'' = Some 690 \<and>
    strptime_HM ''09:30'' = Some 570 \<and> strptime_HM ''09:00'' = Some 540 \<and>
    strptime_HM ''10:00'' = Some 600 \<and> strptime_HM ''11:00'' = Some 660"
    by code_simp
  have la: "lunch_start default_algorithm = 660 \<and> lunch_end default_algorithm = 780"
    by (simp add: default_algorithm_def)
  note t = slot_builder_accepts_in_order [of lunch_day default_algorithm "''2025-12-01''"
      "''10:30''" "''11:30''" _ _ _ _ _ _]
  from t [THEN conjunct2, THEN conjunct2, THEN conjunct2, THEN conjunct2, THEN conjunct2,
    THEN conjunct2, THEN conjunct2, THEN conjunct2, THEN conjunct2, THEN conjunct2,
    THEN conjunct1] p la
  have l: "is_lunch_time default_algorithm ''10:30'' ''11:30''"
    by simp
  note u = slot_builder_accepts_in_order [of "[untimed_session]" default_algorithm "''2025-12-01''"]
  note e = u [THEN conjunct2, THEN conjunct2, THEN conjunct2, THEN conjunct2, THEN conjunct2,
    THEN conjunct2, THEN conjunct2, THEN conjunct2, THEN conjunct1]
  have "\<forall>s \<in> set [untimed_session]. \<not> (truthy (start_time s) \<and> truthy (end_time s))"
    by (simp add: untimed_session_def truthy_def)
  with e have n: "generate_time_slots default_algorithm [untimed_session] ''2025-12-01'' = []"
    by (rule mp)
  have og: "map slot_range (generate_time_slots default_algorithm overlap_day ''2025-12-01'') =
     [(''09:00'', ''10:00'')]"
    by code_simp
  have om: "(''09:30'', ''10:30'') \<in> set (collect_session_times overlap_day)"
    by code_simp
  have on: "(''09:30'', ''10:30'') \<notin>
      slot_range ` set (accepted_slots default_algorithm overlap_day ''2025-12-01'')"
    by code_simp
  note v = slot_builder_accepts_in_order [of overlap_day default_algorithm "''2025-12-01''"
      "''09:30''" "''10:30''" "''09:00''" "''10:00''"]
  from v [THEN conjunct2, THEN conjunct2, THEN conjunct2, THEN conjunct2, THEN conjunct2,
    THEN conjunct2, THEN conjunct2, THEN conjunct2, THEN conjunct2, THEN conjunct2,
    THEN conjunct1] p la
  have ol: "\<not> is_lunch_time default_algorithm ''09:30'' ''10:30''"
    by simp
  note c = v [THEN conjunct2, THEN conjunct2, THEN conjunct2, THEN conjunct2, THEN conjunct2,
    THEN conjunct2, THEN conjunct1]
  from bspec [OF c om] on ol
  have oe: "\<exists>ex \<in> set (accepted_slots default_algorithm overlap_day ''2025-12-01'').
      times_overlap ''09:30'' ''10:30'' (slot_start ex) (slot_end ex)"
    by simp
  from v [THEN conjunct2, THEN conjunct2, THEN conjunct2, THEN conjunct2, THEN conjunct2,
    THEN conjunct2, THEN conjunct2, THEN conjunct2, THEN conjunct2, THEN conjunct1] p
  have ov: "times_overlap ''09:30'' ''10:30'' ''09:00'' ''10:00''"
    by simp
  note w = slot_builder_accepts_in_order [of overlap_day default_algorithm "''2025-12-01''"
      "''10:00''" "''11:00''" "''09:00''" "''10:00''"]
  from w [THEN conjunct2, THEN conjunct2, THEN conjunct2, THEN conjunct2, THEN conjunct2,
    THEN conjunct2, THEN conjunct2, THEN conjunct2, THEN conjunct2, THEN conjunct1] p
  have nv: "\<not> times_overlap ''10:00'' ''11:00'' ''09:00'' ''10:00''"
    by simp
  from g m l n og om on ol oe ov nv show ?thesis by (intro conjI)
qed

section \<open>Conflict resolution of the primary list\<close>

lemma resolve_loop_step:
  "resolve_loop cr resolved (s # rest) =
     (if \<exists>p \<in> set resolved. buffered_conflict cr s p then resolve_loop cr resolved rest
      else resolve_loop cr (resolved @ [s]) rest)"
  by (simp add: buffered_conflict_def reschedule_session_def list_ex_iff
      split: option.splits)

lemma resolve_loop_extends:
  "\<exists>new. resolve_loop cr resolved rest = resolved @ new \<and> subseq new rest"
proof (induction rest arbitrary: resolved)
  case Nil
  then show ?case by simp
next
  case (Cons s rest)
  show ?case
  proof (cases "\<exists>p \<in> set resolved. buffered_conflict cr s p")
    case True
    with Cons.IH [of resolved] show ?thesis
      unfolding resolve_loop_step by (auto intro: subseq_Cons')
  next
    case False
    from Cons.IH [of "resolved @ [s]"] obtain new where
      "resolve_loop cr (resolved @ [s]) rest = (resolved @ [s]) @ new" "subseq new rest"
      by blast
    with False show ?thesis
      unfolding resolve_loop_step by (intro exI [of _ "s # new"]) simp
  qed
qed

lemma resolve_loop_superset: "set resolved \<subseteq> set (resolve_loop cr resolved rest)"
  using resolve_loop_extends [of cr resolved rest] by auto

lemma resolve_loop_pairwise:
  assumes "sorted_wrt (\<lambda>p s. \<not> buffered_conflict cr s p) resolved"
  shows "sorted_wrt (\<lambda>p s. \<not> buffered_conflict cr s p) (resolve_loop cr resolved rest)"
  using assms
proof (induction rest arbitrary: resolved)
  case Nil
  then show ?case by simp
next
  case (Cons s rest)
  show ?case
  proof (cases "\<exists>p \<in> set resolved. buffered_conflict cr s p")
    case True
    with Cons.IH [OF Cons.prems] show ?thesis unfolding resolve_loop_step by simp
  next
    case False
    then have "sorted_wrt (\<lambda>p s. \<not> buffered_conflict cr s p) (resolved @ [s])"
      using Cons.prems by (simp add: sorted_wrt_append)
    from Cons.IH [OF this] False show ?thesis unfolding resolve_loop_step by simp
  qed
qed

lemma resolve_loop_complete:
  assumes "s \<in> set rest"
  shows "s \<in> set (resolve_loop cr resolved rest) \<or>
         (\<exists>p \<in> set (resolve_loop cr resolved rest). buffered_conflict cr s p)"
  using assms
proof (induction rest arbitrary: resolved)
  case Nil
  then show ?case by simp
next
  case (Cons x rest)
  show ?case
  proof (cases "s \<in> set rest")
    case True
    from Cons.IH [OF True, of resolved] Cons.IH [OF True, of "resolved @ [x]"]
    show ?thesis unfolding resolve_loop_step by (simp split: if_splits)
  next
    case False
    with Cons.prems have x: "x = s" by simp
    show ?thesis
    proof (cases "\<exists>p \<in> set resolved. buffered_conflict cr s p")
      case True
      then obtain p where "p \<in> set resolved" "buffered_conflict cr s p" by blast
      moreover have "set resolved \<subseteq> set (resolve_loop cr resolved rest)"
        by (rule resolve_loop_superset)
      ultimately have "\<exists>p \<in> set (resolve_loop cr resolved rest). buffered_conflict cr s p"
        by blast
      with True show ?thesis unfolding x resolve_loop_step by simp
    next
      case False
      have "s \<in> set (resolve_loop cr (resolved @ [s]) rest)"
        using resolve_loop_superset [of "resolved @ [s]" cr rest] by auto
      with False show ?thesis unfolding x resolve_loop_step by simp
    qed
  qed
qed

lemma resolve_time_conflicts_eq:
  "resolve_time_conflicts cr sessions = resolve_loop cr [] (sort_key start_key sessions)"
  by (simp add: resolve_time_conflicts_def)

lemma sessions_conflict_formula:
  assumes "strptime_HM a = Some s1" "strptime_HM b = Some e1"
    "strptime_HM c = Some s2" "strptime_HM d = Some e2"
  shows "sessions_conflict cr a b c d =
           (s1 < e2 + cr_buffer_minutes cr \<and> s2 < e1 + cr_buffer_minutes cr)"
  using assms by (simp add: sessions_conflict_def)

lemma resolve_subseq:
  "subseq (resolve_time_conflicts cr sessions) (sort_key start_key sessions)"
  using resolve_loop_extends [of cr "[]" "sort_key start_key sessions"]
  unfolding resolve_time_conflicts_eq by auto

lemma resolve_sorted: "sorted (map start_key (resolve_time_conflicts cr sessions))"
proof -
  have "sorted_wrt (\<lambda>x y. start_key x \<le> start_key y) (sort_key start_key sessions)"
    using sorted_sort_key [of start_key sessions] by (simp add: sorted_map)
  from sorted_wrt_subseq [OF resolve_subseq this] show ?thesis by (simp add: sorted_map)
qed

lemma final_primary_eq:
  "primary (resolve_conflicts cr sessions backup_pool slots) = resolve_time_conflicts cr sessions"
  by (simp add: resolve_conflicts_def optimize_venue_proximity_def reduce_venue_transitions_def
      Let_def sort_key_id_if_sorted [OF resolve_sorted])

lemma digit_bounds:
  assumes "is_digit c"
  shows "48 \<le> (of_char c :: nat) \<and> (of_char c :: nat) \<le> 57"
  using assms unfolding is_digit_def less_eq_char_def by simp

lemma hour2_digits: "hour2 p q \<Longrightarrow> is_digit p \<and> is_digit q"
  unfolding hour2_def is_digit_def less_eq_char_def by auto

lemma parse_minute_two:
  assumes "parse_minute [p, q] = Some m"
  shows "is_digit p \<and> is_digit q \<and> (of_char p :: nat) \<le> 53 \<and>
         m = 10 * digit_val p + digit_val q"
proof -
  from assms have h: "CHR ''0'' \<le> p" "p \<le> CHR ''5''" "is_digit q"
    "m = 10 * digit_val p + digit_val q"
    unfolding parse_minute_def by (simp_all split: if_splits)
  from h(2) have "(of_char p :: nat) \<le> 53" unfolding less_eq_char_def by simp
  moreover from h(1,2) have "is_digit p" unfolding is_digit_def less_eq_char_def by simp
  ultimately show ?thesis using h(3,4) by blast
qed

lemma list5:
  assumes "length a = 5"
  shows "\<exists>h0 h1 c m0 m1. a = [h0, h1, c, m0, m1]"
  using assms by (auto simp: length_Suc_conv eval_nat_numeral)

lemma parse_minute_three [simp]: "parse_minute [p, q, r] = None"
  by (simp add: parse_minute_def)

lemma strptime_padded:
  assumes "length a = 5" "strptime_HM a = Some x"
  shows "\<exists>h0 h1 m0 m1. a = [h0, h1, CHR '':'', m0, m1] \<and>
           is_digit h0 \<and> is_digit h1 \<and> is_digit m0 \<and> is_digit m1 \<and>
           (of_char m0 :: nat) \<le> 53 \<and>
           x = 60 * (10 * digit_val h0 + digit_val h1) + (10 * digit_val m0 + digit_val m1)"
proof -
  from list5 [OF assms(1)] obtain h0 h1 c m0 m1 where a: "a = [h0, h1, c, m0, m1]"
    by blast
  have s: "strptime_HM [h0, h1, c, m0, m1] =
      (if h1 = CHR '':'' then None
       else if c = CHR '':'' \<and> hour2 h0 h1
            then map_option (\<lambda>m. 60 * (10 * digit_val h0 + digit_val h1) + m)
                   (parse_minute [m0, m1])
            else None)"
    by (simp add: strptime_HM_def)
  from assms(2) have c: "c = CHR '':''" "hour2 h0 h1"
    and pm: "map_option (\<lambda>m. 60 * (10 * digit_val h0 + digit_val h1) + m)
        (parse_minute [m0, m1]) = Some x"
    unfolding a s by (simp_all split: if_splits)
  from pm obtain m where m: "parse_minute [m0, m1] = Some m"
    "x = 60 * (10 * digit_val h0 + digit_val h1) + m"
    by auto
  from parse_minute_two [OF m(1)] hour2_digits [OF c(2)] c(1) m(2) a
  show ?thesis by blast
qed

lemma lex_arith:
  fixes H0 H1 M0 M1 K0 K1 N0 N1 :: nat
  assumes "H1 \<le> 9" "M0 \<le> 5" "M1 \<le> 9" "K1 \<le> 9" "N0 \<le> 5" "N1 \<le> 9"
  shows "(H0 < K0 \<or> H0 = K0 \<and> (H1 < K1 \<or> H1 = K1 \<and> (M0 < N0 \<or> M0 = N0 \<and> M1 \<le> N1))) =
         (60 * (10 * H0 + H1) + (10 * M0 + M1) \<le> 60 * (10 * K0 + K1) + (10 * N0 + N1))"
  using assms by auto

lemma padded_order:
  assumes "length a = 5" "length b = 5" "strptime_HM a = Some x" "strptime_HM b = Some y"
  shows "(a \<le> b) = (x \<le> y)"
proof -
  from strptime_padded [OF assms(1,3)] obtain h0 h1 m0 m1 where
    a: "a = [h0, h1, CHR '':'', m0, m1]" and
    da: "is_digit h0" "is_digit h1" "is_digit m0" "is_digit m1" "(of_char m0 :: nat) \<le> 53" and
    x: "x = 60 * (10 * digit_val h0 + digit_val h1) + (10 * digit_val m0 + digit_val m1)"
    by blast
  from strptime_padded [OF assms(2,4)] obtain k0 k1 n0 n1 where
    b: "b = [k0, k1, CHR '':'', n0, n1]" and
    db: "is_digit k0" "is_digit k1" "is_digit n0" "is_digit n1" "(of_char n0 :: nat) \<le> 53" and
    y: "y = 60 * (10 * digit_val k0 + digit_val k1) + (10 * digit_val n0 + digit_val n1)"
    by blast
  have cmp: "(p < q) = (digit_val p < digit_val q)" "(p = q) = (digit_val p = digit_val q)"
    "(p \<le> q) = (digit_val p \<le> digit_val q)" "digit_val p \<le> 9"
    if "is_digit p" "is_digit q" for p q
  proof -
    from digit_bounds [OF that(1)] digit_bounds [OF that(2)]
    have bd: "48 \<le> (of_char p :: nat)" "(of_char p :: nat) \<le> 57"
      "48 \<le> (of_char q :: nat)" "(of_char q :: nat) \<le> 57"
      by simp_all
    show "(p < q) = (digit_val p < digit_val q)"
      unfolding less_char_def digit_val_def using bd by linarith
    show "(p \<le> q) = (digit_val p \<le> digit_val q)"
      unfolding less_eq_char_def digit_val_def using bd by linarith
    have "(p = q) = ((of_char p :: nat) = of_char q)" by simp
    also have "\<dots> = (digit_val p = digit_val q)"
      unfolding digit_val_def using bd by linarith
    finally show "(p = q) = (digit_val p = digit_val q)" .
    show "digit_val p \<le> 9" unfolding digit_val_def using bd by linarith
  qed
  have m5: "digit_val m0 \<le> 5" "digit_val n0 \<le> 5"
    using da(5) db(5) by (simp_all add: digit_val_def)
  have "(a \<le> b) =
      (h0 < k0 \<or> h0 = k0 \<and> (h1 < k1 \<or> h1 = k1 \<and> (m0 < n0 \<or> m0 = n0 \<and> m1 \<le> n1)))"
    unfolding a b by (auto simp: less_le)
  also have "\<dots> =
      (digit_val h0 < digit_val k0 \<or> digit_val h0 = digit_val k0 \<and>
        (digit_val h1 < digit_val k1 \<or> digit_val h1 = digit_val k1 \<and>
          (digit_val m0 < digit_val n0 \<or> digit_val m0 = digit_val n0 \<and>
             digit_val m1 \<le> digit_val n1)))"
    using cmp(1) [OF da(1) db(1)] cmp(2) [OF da(1) db(1)]
      cmp(1) [OF da(2) db(2)] cmp(2) [OF da(2) db(2)]
      cmp(1) [OF da(3) db(3)] cmp(2) [OF da(3) db(3)]
      cmp(3) [OF da(4) db(4)]
    by simp
  also have "\<dots> = (x \<le> y)"
    unfolding x y
    by (rule lex_arith)
       (use cmp(4) [OF da(2) da(2)] cmp(4) [OF da(4) da(4)] cmp(4) [OF db(2) db(2)]
          cmp(4) [OF db(4) db(4)] m5 in simp_all)
  finally show ?thesis .
qed

lemma buffered_conflict_iff:
  "buffered_conflict cr u v =
     (\<exists>cs ce ps pe c1 c2 p1 p2.
        scheduled_start u = Some cs \<and> scheduled_end u = Some ce \<and>
        scheduled_start v = Some ps \<and> scheduled_end v = Some pe \<and>
        strptime_HM cs = Some c1 \<and> strptime_HM ce = Some c2 \<and>
        strptime_HM ps = Some p1 \<and> strptime_HM pe = Some p2 \<and>
        c1 < p2 + cr_buffer_minutes cr \<and> p1 < c2 + cr_buffer_minutes cr)"
proof -
  have e: "strptime_HM [] = None" by (simp add: strptime_HM_def)
  show ?thesis
    unfolding buffered_conflict_def conflicts_with_prev_def sessions_conflict_def
    using e by (auto split: option.splits)
qed

lemma resolve_loop_append:
  "resolve_loop cr acc (xs @ ys) = resolve_loop cr (resolve_loop cr acc xs) ys"
proof (induction xs arbitrary: acc)
  case Nil
  then show ?case by simp
next
  case (Cons x xs)
  show ?case unfolding append_Cons resolve_loop_step by (simp add: Cons.IH)
qed

lemma resolve_loop_snoc:
  "resolve_loop cr [] (pre @ [u]) =
     (if \<exists>p \<in> set (resolve_loop cr [] pre). buffered_conflict cr u p
      then resolve_loop cr [] pre else resolve_loop cr [] pre @ [u])"
  unfolding resolve_loop_append resolve_loop_step by simp

text \<open>
  C5. The conflict resolver sorts the primary list by the scheduled start: the sort key of
  a session is its scheduled start string, and \<open>00:00\<close> when it has none; the sort is the
  stable sort on strings, and for two zero-padded times (five characters that parse) the
  string order is the order of the minutes since midnight. It then scans the sorted list
  from the left. Two sessions conflict exactly when both have a scheduled start and end,
  all four times parse, and \<open>start1 < end2 + buffer\<close> and \<open>start2 < end1 + buffer\<close>, the
  buffer being the resolver's own, 30 minutes. After any prefix of the sorted list, the
  next session is dropped when it conflicts with a session kept so far, and is appended
  unchanged otherwise: a session is dropped, never moved, and a session that was dropped
  does not block a later one. So what is kept is a subsequence of the sorted list, still
  sorted; no kept session conflicts with one kept before it, and every dropped session
  conflicts with a kept one. The list kept is the final primary list. Of the primaries
  09:00-10:00 and 10:15-11:00, in either order, only the first remains.
\<close>

theorem conflict_resolver_drops_overlapping:
  "subseq (resolve_time_conflicts cr sessions) (sort_key start_key sessions) \<and>
   sorted (map start_key (resolve_time_conflicts cr sessions)) \<and>
   sorted_wrt (\<lambda>p s. \<not> buffered_conflict cr s p) (resolve_time_conflicts cr sessions) \<and>
   (\<forall>s \<in> set sessions.
      s \<in> set (resolve_time_conflicts cr sessions) \<or>
      (\<exists>p \<in> set (resolve_time_conflicts cr sessions). buffered_conflict cr s p)) \<and>
   primary (resolve_conflicts cr sessions backup_pool slots) = resolve_time_conflicts cr sessions \<and>
   (strptime_HM a = Some s1 \<and> strptime_HM b = Some e1 \<and>
    strptime_HM c = Some s2 \<and> strptime_HM d = Some e2 \<longrightarrow>
      sessions_conflict cr a b c d =
        (s1 < e2 + cr_buffer_minutes cr \<and> s2 < e1 + cr_buffer_minutes cr)) \<and>
   cr_buffer_minutes ConflictResolver_init = 30 \<and>
   map session_id (primary (resolve_conflicts ConflictResolver_init scenario_c [] [])) =
     [Some ''A''] \<and>
   map session_id (primary (resolve_conflicts ConflictResolver_init (rev scenario_c) [] [])) =
     [Some ''A''] \<and>
   (scheduled_start u = Some t \<longrightarrow> start_key u = t) \<and>
   (scheduled_start u = None \<longrightarrow> start_key u = ''00:00'') \<and>
   (length t = 5 \<and> length t' = 5 \<and> strptime_HM t = Some x \<and> strptime_HM t' = Some y \<longrightarrow>
      (t \<le> t') = (x \<le> y)) \<and>
   buffered_conflict cr u v =
     (\<exists>cs ce ps pe c1 c2 p1 p2.
        scheduled_start u = Some cs \<and> scheduled_end u = Some ce \<and>
        scheduled_start v = Some ps \<and> scheduled_end v = Some pe \<and>
        strptime_HM cs = Some c1 \<and> strptime_HM ce = Some c2 \<and>
        strptime_HM ps = Some p1 \<and> strptime_HM pe = Some p2 \<and>
        c1 < p2 + cr_buffer_minutes cr \<and> p1 < c2 + cr_buffer_minutes cr) \<and>
   resolve_loop cr [] (pre @ [u]) =
     (if \<exists>p \<in> set (resolve_loop cr [] pre). buffered_conflict cr u p
      then resolve_loop cr [] pre else resolve_loop cr [] pre @ [u]) \<and>
   resolve_time_conflicts cr sessions = resolve_loop cr [] (sort_key start_key sessions) \<and>
   set (sort_key start_key sessions) = set sessions \<and>
   length (sort_key start_key sessions) = length sessions \<and>
   sorted (map start_key (sort_key start_key sessions))"
proof -
  have pw: "sorted_wrt (\<lambda>p s. \<not> buffered_conflict cr s p) (resolve_time_conflicts cr sessions)"
    unfolding resolve_time_conflicts_eq by (rule resolve_loop_pairwise) simp
  have cp: "\<forall>s \<in> set sessions.
      s \<in> set (resolve_time_conflicts cr sessions) \<or>
      (\<exists>p \<in> set (resolve_time_conflicts cr sessions). buffered_conflict cr s p)"
  proof
    fix s
    assume "s \<in> set sessions"
    then have "s \<in> set (sort_key start_key sessions)" by simp
    from resolve_loop_complete [OF this, of cr "[]"]
    show "s \<in> set (resolve_time_conflicts cr sessions) \<or>
      (\<exists>p \<in> set (resolve_time_conflicts cr sessions). buffered_conflict cr s p)"
      unfolding resolve_time_conflicts_eq .
  qed
  have fm: "strptime_HM a = Some s1 \<and> strptime_HM b = Some e1 \<and>
    strptime_HM c = Some s2 \<and> strptime_HM d = Some e2 \<longrightarrow>
      sessions_conflict cr a b c d =
        (s1 < e2 + cr_buffer_minutes cr \<and> s2 < e1 + cr_buffer_minutes cr)"
    using sessions_conflict_formula by blast
  have bf: "cr_buffer_minutes ConflictResolver_init = 30"
    by (simp add: ConflictResolver_init_def)
  have sc: "map session_id (primary (resolve_conflicts ConflictResolver_init scenario_c [] [])) =
     [Some ''A'']"
    by code_simp
  have sr: "map session_id
      (primary (resolve_conflicts ConflictResolver_init (rev scenario_c) [] [])) = [Some ''A'']"
    by code_simp
  have k1: "scheduled_start u = Some t \<longrightarrow> start_key u = t"
    by (simp add: start_key_def)
  have k2: "scheduled_start u = None \<longrightarrow> start_key u = ''00:00''"
    by (simp add: start_key_def)
  have po: "length t = 5 \<and> length t' = 5 \<and> strptime_HM t = Some x \<and>
      strptime_HM t' = Some y \<longrightarrow> (t \<le> t') = (x \<le> y)"
    using padded_order by blast
  show ?thesis
    by (intro conjI resolve_subseq resolve_sorted pw cp final_primary_eq fm bf sc sr k1 k2 po
        buffered_conflict_iff resolve_loop_snoc resolve_time_conflicts_eq set_sort length_sort
        sorted_sort_key)
qed

theorem conflict_resolver_drops_overlapping_witness:
  "map session_id (resolve_time_conflicts ConflictResolver_init chain_day) =
     [Some ''X'', Some ''Z''] \<and>
   chain_day ! 1 \<in> set chain_day \<and>
   chain_day ! 1 \<notin> set (resolve_time_conflicts ConflictResolver_init chain_day) \<and>
   (\<exists>p \<in> set (resolve_time_conflicts ConflictResolver_init chain_day).
      buffered_conflict ConflictResolver_init (chain_day ! 1) p) \<and>
   buffered_conflict ConflictResolver_init (chain_day ! 0) (chain_day ! 1) \<and>
   chain_day ! 0 \<in> set (resolve_time_conflicts ConflictResolver_init chain_day) \<and>
   strptime_HM ''10:15'' = Some 615 \<and> strptime_HM ''11:00'' = Some 660 \<and>
   strptime_HM ''09:00'' = Some 540 \<and> strptime_HM ''10:00'' = Some 600 \<and>
   sessions_conflict ConflictResolver_init ''10:15'' ''11:00'' ''09:00'' ''10:00'' \<and>
   (''09:00'' \<le> ''10:15'') = ((540 :: nat) \<le> 615) \<and>
   start_key (chain_day ! 0) = ''16:10'' \<and>
   map_option (\<lambda>r. map (\<lambda>(d, daily). map session_id (primary_sessions daily)) (days r))
     (run_schedule Config
        [plain_session ''B'' ''2025-12-01'' ''10:15'' ''11:00'' (9 / 10),
         plain_session ''A'' ''2025-12-01'' ''09:00'' ''10:00'' (8 / 10)]
        [''2025-12-01'']) = Some [[Some ''A'']]"
proof -
  let ?cr = ConflictResolver_init
  have a: "map session_id (resolve_time_conflicts ?cr chain_day) = [Some ''X'', Some ''Z'']"
    by code_simp
  have m: "chain_day ! 1 \<in> set chain_day" by code_simp
  have n: "chain_day ! 1 \<notin> set (resolve_time_conflicts ?cr chain_day)"
    by code_simp
  have zy: "buffered_conflict ?cr (chain_day ! 0) (chain_day ! 1)"
    by code_simp
  have z: "chain_day ! 0 \<in> set (resolve_time_conflicts ?cr chain_day)"
    by code_simp
  have p: "strptime_HM ''10:15'' = Some 615 \<and> strptime_HM ''11:00'' = Some 660 \<and>
    strptime_HM ''09:00'' = Some 540 \<and> strptime_HM ''10:00'' = Some 600"
    by code_simp
  have ss: "scheduled_start (chain_day ! 0) = Some ''16:10''"
    by code_simp
  have r: "map_option (\<lambda>r. map (\<lambda>(d, daily). map session_id (primary_sessions daily)) (days r))
     (run_schedule Config
        [plain_session ''B'' ''2025-12-01'' ''10:15'' ''11:00'' (9 / 10),
         plain_session ''A'' ''2025-12-01'' ''09:00'' ''10:00'' (8 / 10)]
        [''2025-12-01'']) = Some [[Some ''A'']]"
    by code_simp
  note t = conflict_resolver_drops_overlapping [of ?cr chain_day _ _ "''10:15''" 615 "''11:00''" 660
      "''09:00''" 540 "''10:00''" 600 "chain_day ! 0" "''16:10''"]
  note c = t [THEN conjunct2, THEN conjunct2, THEN conjunct2, THEN conjunct1]
  from bspec [OF c m] n
  have e: "\<exists>p \<in> set (resolve_time_conflicts ?cr chain_day).
      buffered_conflict ?cr (chain_day ! 1) p"
    by blast
  note f = t [THEN conjunct2, THEN conjunct2, THEN conjunct2, THEN conjunct2, THEN conjunct2,
      THEN conjunct1]
  note b = t [THEN conjunct2, THEN conjunct2, THEN conjunct2, THEN conjunct2, THEN conjunct2,
      THEN conjunct2, THEN conjunct1]
  from mp [OF f p] b
  have g: "sessions_conflict ?cr ''10:15'' ''11:00'' ''09:00'' ''10:00''"
    by simp
  note k = t [THEN conjunct2, THEN conjunct2, THEN conjunct2, THEN conjunct2, THEN conjunct2,
      THEN conjunct2, THEN conjunct2, THEN conjunct2, THEN conjunct2, THEN conjunct1]
  from mp [OF k ss] have sk: "start_key (chain_day ! 0) = ''16:10''" .
  note u = conflict_resolver_drops_overlapping [of ?cr chain_day _ _ _ _ _ _ _ _ _ _ _ "''09:00''" "''10:15''" 540 615]
  note o = u [THEN conjunct2, THEN conjunct2, THEN conjunct2, THEN conjunct2, THEN conjunct2,
      THEN conjunct2, THEN conjunct2, THEN conjunct2, THEN conjunct2, THEN conjunct2,
      THEN conjunct2, THEN conjunct1]
  have "length ''09:00'' = 5 \<and> length ''10:15'' = 5 \<and>
    strptime_HM ''09:00'' = Some 540 \<and> strptime_HM ''10:15'' = Some 615"
    using p by simp
  from mp [OF o this] have po: "(''09:00'' \<le> ''10:15'') = ((540 :: nat) \<le> 615)" .
  from a m n e zy z p g po sk r show ?thesis by blast
qed

section \<open>Primary assignment\<close>

lemma best_loop_foldl:
  "best_loop used sl best sessions = foldl better best (eligible used sl sessions)"
  by (induction sessions arbitrary: best) (auto simp: eligible_def better_def)

lemma foldl_better:
  "(foldl better (b0, v0) cands = (b0, v0) \<and> (\<forall>c \<in> set cands. score c \<le> v0)) \<or>
   (\<exists>a m z. cands = a @ m # z \<and> foldl better (b0, v0) cands = (Some m, score m) \<and>
      v0 < score m \<and> (\<forall>c \<in> set a. score c < score m) \<and> (\<forall>c \<in> set z. score c \<le> score m))"
proof (induction cands arbitrary: b0 v0)
  case Nil
  then show ?case by simp
next
  case (Cons c cs)
  show ?case
  proof (cases "v0 < score c")
    case True
    then have st: "foldl better (b0, v0) (c # cs) = foldl better (Some c, score c) cs"
      by (simp add: better_def)
    from Cons.IH [of "Some c" "score c"] show ?thesis
    proof
      assume "foldl better (Some c, score c) cs = (Some c, score c) \<and>
        (\<forall>x \<in> set cs. score x \<le> score c)"
      with True st have "c # cs = [] @ c # cs \<and>
        foldl better (b0, v0) (c # cs) = (Some c, score c) \<and> v0 < score c \<and>
        (\<forall>x \<in> set []. score x < score c) \<and> (\<forall>x \<in> set cs. score x \<le> score c)"
        by simp
      then show ?thesis by blast
    next
      assume "\<exists>a m z. cs = a @ m # z \<and>
        foldl better (Some c, score c) cs = (Some m, score m) \<and> score c < score m \<and>
        (\<forall>x \<in> set a. score x < score m) \<and> (\<forall>x \<in> set z. score x \<le> score m)"
      then obtain a m z where h: "cs = a @ m # z"
        "foldl better (Some c, score c) cs = (Some m, score m)" "score c < score m"
        "\<forall>x \<in> set a. score x < score m" "\<forall>x \<in> set z. score x \<le> score m"
        by blast
      with True st have "c # cs = (c # a) @ m # z \<and>
        foldl better (b0, v0) (c # cs) = (Some m, score m) \<and> v0 < score m \<and>
        (\<forall>x \<in> set (c # a). score x < score m) \<and> (\<forall>x \<in> set z. score x \<le> score m)"
        by simp
      then show ?thesis by blast
    qed
  next
    case False
    then have st: "foldl better (b0, v0) (c # cs) = foldl better (b0, v0) cs"
      by (simp add: better_def)
    from Cons.IH [of b0 v0] show ?thesis
    proof
      assume "foldl better (b0, v0) cs = (b0, v0) \<and> (\<forall>x \<in> set cs. score x \<le> v0)"
      with False st show ?thesis by simp
    next
      assume "\<exists>a m z. cs = a @ m # z \<and>
        foldl better (b0, v0) cs = (Some m, score m) \<and> v0 < score m \<and>
        (\<forall>x \<in> set a. score x < score m) \<and> (\<forall>x \<in> set z. score x \<le> score m)"
      then obtain a m z where h: "cs = a @ m # z"
        "foldl better (b0, v0) cs = (Some m, score m)" "v0 < score m"
        "\<forall>x \<in> set a. score x < score m" "\<forall>x \<in> set z. score x \<le> score m"
        by blast
      with False st have "c # cs = (c # a) @ m # z \<and>
        foldl better (b0, v0) (c # cs) = (Some m, score m) \<and> v0 < score m \<and>
        (\<forall>x \<in> set (c # a). score x < score m) \<and> (\<forall>x \<in> set z. score x \<le> score m)"
        by simp
      then show ?thesis by blast
    qed
  qed
qed

lemma find_append_None: "find P xs = None \<Longrightarrow> find P (xs @ ys) = find P ys"
  by (induction xs) (auto split: if_splits)

lemma first_highest_split:
  assumes "\<forall>c \<in> set a. score c < score m" "\<forall>c \<in> set z. score c \<le> score m"
  shows "first_highest (a @ m # z) = Some m"
proof -
  have "\<not> (\<forall>c' \<in> set (a @ m # z). score c' \<le> score c)" if "c \<in> set a" for c
    using assms(1) that by (auto intro!: bexI [of _ m])
  then have "find (\<lambda>c. \<forall>c' \<in> set (a @ m # z). score c' \<le> score c) a = None"
    by (simp add: find_None_iff)
  moreover have "\<forall>c' \<in> set (a @ m # z). score c' \<le> score m"
    using assms by (auto intro: less_imp_le)
  ultimately show ?thesis
    unfolding first_highest_def by (simp add: find_append_None)
qed

lemma best_loop_is_first_highest:
  assumes "\<forall>s \<in> set sessions. - 1 < score s"
  shows "fst (best_loop used sl (None, - 1) sessions) = first_highest (eligible used sl sessions)"
proof -
  let ?c = "eligible used sl sessions"
  from foldl_better [of None "- 1" ?c] show ?thesis
  proof
    assume h: "foldl better (None, - 1) ?c = (None, - 1) \<and> (\<forall>c \<in> set ?c. score c \<le> - 1)"
    have "set ?c \<subseteq> set sessions" by (auto simp: eligible_def)
    with assms h have "?c = []" by (cases ?c) fastforce+
    with h show ?thesis by (simp add: best_loop_foldl first_highest_def)
  next
    assume "\<exists>a m z. ?c = a @ m # z \<and> foldl better (None, - 1) ?c = (Some m, score m) \<and>
      - 1 < score m \<and> (\<forall>c \<in> set a. score c < score m) \<and> (\<forall>c \<in> set z. score c \<le> score m)"
    then obtain a m z where h: "?c = a @ m # z"
      "foldl better (None, - 1) ?c = (Some m, score m)"
      "\<forall>c \<in> set a. score c < score m" "\<forall>c \<in> set z. score c \<le> score m"
      by blast
    from first_highest_split [OF h(3,4)] h(1,2) show ?thesis
      by (simp add: best_loop_foldl)
  qed
qed

lemma best_loop_Some_eligible:
  assumes "fst (best_loop used sl (None, - 1) sessions) = Some b"
  shows "b \<in> set (eligible used sl sessions)"
  using foldl_better [of None "- 1" "eligible used sl sessions"] assms
  by (auto simp: best_loop_foldl)

lemma assign_slot_id [simp]: "session_id (assign_slot b sl) = session_id b"
  by (simp add: assign_slot_def)

lemma primary_loop_step:
  assumes "\<forall>s \<in> set sessions. - 1 < score s"
  shows "primary_loop sessions P used (sl # slots) =
     (case first_highest (eligible used sl sessions) of
        None \<Rightarrow> primary_loop sessions P used slots
      | Some b \<Rightarrow>
          primary_loop sessions (P @ [assign_slot b sl]) (insert (session_id b) used) slots)"
  by (simp add: best_loop_is_first_highest [OF assms])

lemma primary_loop_extends:
  "prefix P (primary_loop sessions P used slots)"
proof (induction slots arbitrary: P used)
  case Nil
  then show ?case by simp
next
  case (Cons sl slots)
  show ?case
  proof (cases "fst (best_loop used sl (None, - 1) sessions)")
    case None
    with Cons.IH [of P used] show ?thesis by simp
  next
    case (Some b)
    from Cons.IH [of "P @ [assign_slot b sl]" "insert (session_id b) used"]
    have "prefix P (primary_loop sessions (P @ [assign_slot b sl])
        (insert (session_id b) used) slots)"
      by (rule append_prefixD)
    with Some show ?thesis by simp
  qed
qed

lemma primary_loop_append:
  assumes "used = set (map session_id P)"
  shows "primary_loop sessions P used (xs @ ys) =
     primary_loop sessions (primary_loop sessions P used xs)
       (set (map session_id (primary_loop sessions P used xs))) ys"
  using assms
proof (induction xs arbitrary: P used)
  case Nil
  then show ?case by simp
next
  case (Cons sl xs)
  show ?case
  proof (cases "fst (best_loop used sl (None, - 1) sessions)")
    case None
    with Cons.IH [OF Cons.prems] show ?thesis by simp
  next
    case (Some b)
    have "insert (session_id b) used = set (map session_id (P @ [assign_slot b sl]))"
      using Cons.prems by simp
    from Cons.IH [OF this] Some show ?thesis by simp
  qed
qed

lemma primary_loop_distinct:
  assumes "used = set (map session_id P)" "distinct (map session_id P)"
  shows "distinct (map session_id (primary_loop sessions P used slots))"
  using assms
proof (induction slots arbitrary: P used)
  case Nil
  then show ?case by simp
next
  case (Cons sl slots)
  show ?case
  proof (cases "fst (best_loop used sl (None, - 1) sessions)")
    case None
    with Cons.IH [OF Cons.prems] show ?thesis by simp
  next
    case (Some b)
    from best_loop_Some_eligible [OF Some] have "session_id b \<notin> used"
      by (simp add: eligible_def)
    with Cons.prems have
      "insert (session_id b) used = set (map session_id (P @ [assign_slot b sl]))"
      "distinct (map session_id (P @ [assign_slot b sl]))"
      by simp_all
    from Cons.IH [OF this] Some show ?thesis by simp
  qed
qed

text \<open>
  C6. Let the scores be above the start value -1 of the search (the scorer's are in
  [0, 1]). For a slot at any place of the slot list, with the primaries assigned to the
  slots before it and their ids as the used set, the assigner takes, among the sessions
  not yet used whose start and end equal the slot's, the first one of highest score. When
  there is none the slot adds nothing and the slots after it are treated from the same
  state; what was assigned before a slot stays. No session id occurs twice in the result.
\<close>

theorem primary_assigner_takes_first_highest:
  assumes "\<forall>s \<in> set sessions. - 1 < score s"
  shows
   "schedule_primary_sessions sessions (pre @ sl # post) =
      (case first_highest
              (eligible (set (map session_id (schedule_primary_sessions sessions pre))) sl sessions) of
         None \<Rightarrow>
           primary_loop sessions (schedule_primary_sessions sessions pre)
             (set (map session_id (schedule_primary_sessions sessions pre))) post
       | Some b \<Rightarrow>
           primary_loop sessions (schedule_primary_sessions sessions pre @ [assign_slot b sl])
             (insert (session_id b) (set (map session_id (schedule_primary_sessions sessions pre))))
             post) \<and>
    schedule_primary_sessions sessions (pre @ [sl]) =
      schedule_primary_sessions sessions pre @
      (case first_highest
              (eligible (set (map session_id (schedule_primary_sessions sessions pre))) sl sessions) of
         None \<Rightarrow> [] | Some b \<Rightarrow> [assign_slot b sl]) \<and>
    prefix (schedule_primary_sessions sessions (pre @ [sl]))
      (schedule_primary_sessions sessions (pre @ sl # post)) \<and>
    distinct (map session_id (schedule_primary_sessions sessions slots))"
proof -
  let ?P = "schedule_primary_sessions sessions pre"
  let ?used = "set (map session_id ?P)"
  have ap: "schedule_primary_sessions sessions (pre @ ys) = primary_loop sessions ?P ?used ys"
    for ys
    unfolding schedule_primary_sessions_def
    by (rule primary_loop_append) simp
  have a: "schedule_primary_sessions sessions (pre @ sl # post) =
      (case first_highest (eligible ?used sl sessions) of
         None \<Rightarrow> primary_loop sessions ?P ?used post
       | Some b \<Rightarrow>
           primary_loop sessions (?P @ [assign_slot b sl]) (insert (session_id b) ?used) post)"
    unfolding ap by (rule primary_loop_step [OF assms])
  have b: "schedule_primary_sessions sessions (pre @ [sl]) =
      ?P @ (case first_highest (eligible ?used sl sessions) of
              None \<Rightarrow> [] | Some b \<Rightarrow> [assign_slot b sl])"
    unfolding ap primary_loop_step [OF assms] by (simp split: option.splits)
  have "schedule_primary_sessions sessions ((pre @ [sl]) @ post) =
      primary_loop sessions (schedule_primary_sessions sessions (pre @ [sl]))
        (set (map session_id (schedule_primary_sessions sessions (pre @ [sl])))) post"
    unfolding schedule_primary_sessions_def
    by (rule primary_loop_append) simp
  then have c: "prefix (schedule_primary_sessions sessions (pre @ [sl]))
      (schedule_primary_sessions sessions (pre @ sl # post))"
    using primary_loop_extends
      [of "schedule_primary_sessions sessions (pre @ [sl])" sessions _ post]
    by simp
  have d: "distinct (map session_id (schedule_primary_sessions sessions slots))"
    unfolding schedule_primary_sessions_def
    by (rule primary_loop_distinct) simp_all
  show ?thesis by (intro conjI a b c d)
qed

theorem primary_assigner_takes_first_highest_witness:
  "map session_id (schedule_primary_sessions tie_day tie_slots) = [Some ''A'', Some ''C''] \<and>
   map time_slot (schedule_primary_sessions tie_day tie_slots) =
     [Some ''slot_1'', Some ''slot_3''] \<and>
   first_highest (eligible {} (tie_slots ! 0) tie_day) = Some (tie_day ! 0) \<and>
   schedule_primary_sessions tie_day ([tie_slots ! 0] @ [tie_slots ! 1]) =
     schedule_primary_sessions tie_day [tie_slots ! 0] \<and>
   distinct (map session_id (schedule_primary_sessions tie_day tie_slots))"
proof -
  have h: "\<forall>s \<in> set tie_day. - 1 < score s"
    by (simp add: tie_day_def plain_session_def)
  have a: "map session_id (schedule_primary_sessions tie_day tie_slots) =
      [Some ''A'', Some ''C'']"
    by code_simp
  have b: "map time_slot (schedule_primary_sessions tie_day tie_slots) =
     [Some ''slot_1'', Some ''slot_3'']"
    by code_simp
  have c: "first_highest (eligible {} (tie_slots ! 0) tie_day) = Some (tie_day ! 0)"
    by code_simp
  have e: "first_highest
      (eligible (set (map session_id (schedule_primary_sessions tie_day [tie_slots ! 0])))
         (tie_slots ! 1) tie_day) = None"
    by code_simp
  note t = primary_assigner_takes_first_highest [OF h, of "[tie_slots ! 0]" "tie_slots ! 1" "[]" tie_slots]
  from t [THEN conjunct2, THEN conjunct1] e
  have d: "schedule_primary_sessions tie_day ([tie_slots ! 0] @ [tie_slots ! 1]) =
     schedule_primary_sessions tie_day [tie_slots ! 0]"
    by simp
  note f = t [THEN conjunct2, THEN conjunct2, THEN conjunct2]
  from a b c d f show ?thesis by blast
qed

section \<open>Backup generation\<close>

lemma strptime_Nil [simp]: "strptime_HM [] = None"
  by (simp add: strptime_HM_def)

lemma session_fits_slot_iff:
  "session_fits_slot s ss se = (within_30 (start_time s) ss \<and> within_30 (end_time s) se)"
  unfolding session_fits_slot_def within_30_def times_are_compatible_def
  by (auto split: option.splits)






lemma set_update_subset: "set (AList.update k v al) \<subseteq> insert (k, v) (set al)"
  by (induction al) auto

lemma fold_update_entries:
  assumes "(k, v) \<in> set (fold (\<lambda>sl acc. AList.update (slot_id sl) (f sl) acc) slots acc0)"
  shows "(k, v) \<in> set acc0 \<or> (\<exists>sl \<in> set slots. k = slot_id sl \<and> v = f sl)"
  using assms
proof (induction slots arbitrary: acc0)
  case Nil
  then show ?case by simp
next
  case (Cons x xs)
  from Cons.prems have "(k, v) \<in> set (fold (\<lambda>sl acc. AList.update (slot_id sl) (f sl) acc) xs
      (AList.update (slot_id x) (f x) acc0))"
    by simp
  from Cons.IH [OF this] show ?case
  proof
    assume "(k, v) \<in> set (AList.update (slot_id x) (f x) acc0)"
    with set_update_subset [of "slot_id x" "f x" acc0]
    have "(k = slot_id x \<and> v = f x) \<or> (k, v) \<in> set acc0"
      by auto
    then show ?thesis by auto
  next
    assume "\<exists>sl \<in> set xs. k = slot_id sl \<and> v = f sl"
    then show ?thesis by auto
  qed
qed





section \<open>Lunch exclusion\<close>

lemma generate_time_slots_eq:
  "generate_time_slots alg sessions d =
     py_slice_to (accepted_slots alg sessions d) (max_sessions_per_day alg)"
  by (simp add: generate_time_slots_def accepted_slots_def Let_def)

lemma generate_time_slots_no_lunch:
  assumes "sl \<in> set (generate_time_slots alg sessions d)"
  shows "\<not> is_lunch_time alg (slot_start sl) (slot_end sl)"
proof -
  from assms have "sl \<in> set (py_slice_to (accepted_slots alg sessions d)
      (max_sessions_per_day alg))"
    unfolding generate_time_slots_eq .
  then have "sl \<in> set (accepted_slots alg sessions d)"
    by (rule subsetD [OF set_py_slice_to])
  moreover have "\<forall>sl \<in> set (accepted_slots alg sessions d).
      \<not> is_lunch_time alg (slot_start sl) (slot_end sl)"
    unfolding accepted_slots_def by (rule slots_loop_no_lunch) simp
  ultimately show ?thesis by blast
qed

lemma best_loop_Some_mem:
  assumes "fst (best_loop used sl (None, - 1) sessions) = Some b"
  shows "b \<in> set sessions \<and> start_time b = Some (slot_start sl) \<and> end_time b = Some (slot_end sl)"
  using best_loop_Some_eligible [OF assms] by (simp add: eligible_def)

lemma primary_loop_elem:
  assumes "p \<in> set (primary_loop sessions P used slots)"
  shows "p \<in> set P \<or>
    (\<exists>b \<in> set sessions. \<exists>sl \<in> set slots. p = assign_slot b sl \<and>
       start_time b = Some (slot_start sl) \<and> end_time b = Some (slot_end sl))"
  using assms
proof (induction slots arbitrary: P used)
  case Nil
  then show ?case by simp
next
  case (Cons sl slots)
  show ?case
  proof (cases "fst (best_loop used sl (None, - 1) sessions)")
    case None
    with Cons.prems have "p \<in> set (primary_loop sessions P used slots)" by simp
    from Cons.IH [OF this] show ?thesis by auto
  next
    case (Some b)
    with Cons.prems have "p \<in> set (primary_loop sessions (P @ [assign_slot b sl])
        (insert (session_id b) used) slots)"
      by simp
    from Cons.IH [OF this] best_loop_Some_mem [OF Some] show ?thesis by auto
  qed
qed

lemma primary_clear:
  assumes "p \<in> set (schedule_primary_sessions sessions (generate_time_slots alg ss d))"
  shows "clear_of_lunch alg p"
proof -
  from primary_loop_elem [OF assms [unfolded schedule_primary_sessions_def]]
  obtain b sl where h: "sl \<in> set (generate_time_slots alg ss d)" "p = assign_slot b sl"
    "start_time b = Some (slot_start sl)" "end_time b = Some (slot_end sl)"
    by auto
  from generate_time_slots_no_lunch [OF h(1)] h(2,3,4) show ?thesis
    unfolding clear_of_lunch_def assign_slot_def by simp
qed

lemma set_resolve_subset: "set (resolve_time_conflicts cr sessions) \<subseteq> set sessions"
proof
  fix x
  assume "x \<in> set (resolve_time_conflicts cr sessions)"
  from list_emb_set [OF resolve_subseq this] show "x \<in> set sessions" by auto
qed

lemma within_30D:
  assumes "within_30 t x"
  shows "\<exists>st s ss. t = Some st \<and> strptime_HM st = Some s \<and> strptime_HM x = Some ss \<and>
           \<bar>int s - int ss\<bar> \<le> 30"
  using assms by (auto simp: within_30_def split: option.splits)

lemma within_30_lunch:
  assumes "session_fits_slot c (slot_start sl) (slot_end sl)"
    "\<not> is_lunch_time alg (slot_start sl) (slot_end sl)"
  shows "lunch_overlap_within_tolerance alg c"
proof -
  from assms(1) have w: "within_30 (start_time c) (slot_start sl)"
    "within_30 (end_time c) (slot_end sl)"
    by (simp_all add: session_fits_slot_iff)
  from within_30D [OF w(1)] obtain st s ss where a:
    "start_time c = Some st" "strptime_HM st = Some s"
    "strptime_HM (slot_start sl) = Some ss" "\<bar>int s - int ss\<bar> \<le> 30"
    by blast
  from within_30D [OF w(2)] obtain en e se where b:
    "end_time c = Some en" "strptime_HM en = Some e"
    "strptime_HM (slot_end sl) = Some se" "\<bar>int e - int se\<bar> \<le> 30"
    by blast
  from assms(2) a(3) b(3) have "lunch_end alg \<le> ss \<or> se \<le> lunch_start alg"
    by (auto simp: is_lunch_time_def)
  with a(4) b(4) have "lunch_end alg \<le> s + 30 \<or> e \<le> lunch_start alg + 30" by linarith
  with a(1,2) b(1,2) show ?thesis unfolding lunch_overlap_within_tolerance_def by blast
qed

lemma lunch_tolerance_annot [simp]:
  "lunch_overlap_within_tolerance alg (c\<lparr>backup_score := v\<rparr>) = lunch_overlap_within_tolerance alg c"
  by (simp add: lunch_overlap_within_tolerance_def)

lemma select_backups_tolerance:
  assumes "b \<in> set (select_backups bg all_sessions ids sl)"
    "\<not> is_lunch_time alg (slot_start sl) (slot_end sl)"
  shows "lunch_overlap_within_tolerance alg b"
proof -
  from select_backups_elem [OF assms(1)] obtain c where
    c: "c \<in> set (find_candidate_sessions all_sessions (slot_start sl) (slot_end sl) ids)"
      "b = c\<lparr>backup_score := Some (calculate_backup_score c sl)\<rparr>"
    by blast
  from c(1) have "session_fits_slot c (slot_start sl) (slot_end sl)"
    by (simp add: find_candidate_sessions_def)
  from within_30_lunch [OF this assms(2)] c(2) show ?thesis by simp
qed

lemma backups_resolve_eq:
  "backups (resolve_conflicts cr prim pool slots) =
     validate_backup_sessions cr (resolve_time_conflicts cr prim) pool"
  by (simp add: resolve_conflicts_def optimize_venue_proximity_def Let_def)

lemma validate_entry:
  assumes "(k, bs) \<in> set (validate_backup_sessions cr prim pool)"
  shows "\<exists>bs0. (k, bs0) \<in> set pool \<and> set bs \<subseteq> set bs0"
  using assms unfolding validate_backup_sessions_def by auto

lemma daily_primary_clear:
  assumes "p \<in> set (primary_sessions (create_daily_schedule cfg alg sessions d))"
  shows "clear_of_lunch alg p"
proof -
  let ?srt = "sorted_reverse score sessions"
  let ?slots = "generate_time_slots alg ?srt d"
  let ?prim = "schedule_primary_sessions ?srt ?slots"
  from assms have "p \<in> set (resolve_time_conflicts (the_conflict_resolver alg) ?prim)"
    by (simp add: create_daily_schedule_def Let_def final_primary_eq)
  then have "p \<in> set ?prim" by (rule subsetD [OF set_resolve_subset])
  then show ?thesis by (rule primary_clear)
qed

lemma daily_backup_tolerance:
  assumes "(k, bs) \<in> set (backup_sessions (create_daily_schedule cfg alg sessions d))"
    "b \<in> set bs"
  shows "lunch_overlap_within_tolerance alg b"
proof -
  let ?srt = "sorted_reverse score sessions"
  let ?slots = "generate_time_slots alg ?srt d"
  let ?prim = "schedule_primary_sessions ?srt ?slots"
  let ?pool = "generate_backups (the_backup_generator alg) ?srt ?prim ?slots"
  from assms(1) have "(k, bs) \<in> set (validate_backup_sessions (the_conflict_resolver alg)
      (resolve_time_conflicts (the_conflict_resolver alg) ?prim) ?pool)"
    by (simp add: create_daily_schedule_def Let_def backups_resolve_eq)
  from validate_entry [OF this] obtain bs0 where
    bs0: "(k, bs0) \<in> set ?pool" "set bs \<subseteq> set bs0"
    by blast
  from bs0(1) have "(k, bs0) \<in> set (fold (\<lambda>sl acc. AList.update (slot_id sl)
      (select_backups (the_backup_generator alg) ?srt (set (map session_id ?prim)) sl) acc)
      ?slots [])"
    unfolding generate_backups_def Let_def .
  from fold_update_entries [OF this] obtain sl where sl: "sl \<in> set ?slots"
    "bs0 = select_backups (the_backup_generator alg) ?srt (set (map session_id ?prim)) sl"
    by auto
  from assms(2) bs0(2) sl(2)
  have "b \<in> set (select_backups (the_backup_generator alg) ?srt (set (map session_id ?prim)) sl)"
    by blast
  from select_backups_tolerance [OF this generate_time_slots_no_lunch [OF sl(1)]]
  show ?thesis .
qed

lemma fold_update_entries_gen:
  assumes "(k, v) \<in> set (fold (\<lambda>x acc. AList.update (g x) (f x) acc) xs acc0)"
  shows "(k, v) \<in> set acc0 \<or> (\<exists>x \<in> set xs. k = g x \<and> v = f x)"
  using assms
proof (induction xs arbitrary: acc0)
  case Nil
  then show ?case by simp
next
  case (Cons x xs)
  from Cons.prems have "(k, v) \<in> set (fold (\<lambda>x acc. AList.update (g x) (f x) acc) xs
      (AList.update (g x) (f x) acc0))"
    by simp
  from Cons.IH [OF this] show ?case
  proof
    assume "(k, v) \<in> set (AList.update (g x) (f x) acc0)"
    with set_update_subset [of "g x" "f x" acc0]
    have "(k = g x \<and> v = f x) \<or> (k, v) \<in> set acc0" by auto
    then show ?thesis by auto
  next
    assume "\<exists>y \<in> set xs. k = g y \<and> v = f y"
    then show ?thesis by auto
  qed
qed

lemma schedule_days_entry:
  assumes "(d, daily) \<in> set (schedule_days cfg alg sessions dates)"
  shows "daily = empty_daily_schedule cfg \<or> (\<exists>ds. daily = create_daily_schedule cfg alg ds d)"
proof -
  let ?g = "group_sessions_by_date sessions dates"
  let ?f = "\<lambda>d. let daily_sessions = (case map_of ?g d of None \<Rightarrow> [] | Some l \<Rightarrow> l)
                 in if daily_sessions = [] then empty_daily_schedule cfg
                    else create_daily_schedule cfg alg daily_sessions d"
  have "schedule_days cfg alg sessions dates =
      fold (\<lambda>d acc. AList.update d (?f d) acc) dates []"
    unfolding schedule_days_def Let_def
    by (rule fold_cong) (auto simp: fun_eq_iff)
  with assms have "(d, daily) \<in> set (fold (\<lambda>d acc. AList.update d (?f d) acc) dates [])"
    by simp
  from fold_update_entries_gen [OF this] have "daily = ?f d" by auto
  then show ?thesis unfolding Let_def by (auto split: if_splits)
qed

lemma empty_daily_fields [simp]:
  "primary_sessions (empty_daily_schedule cfg) = []"
  "backup_sessions (empty_daily_schedule cfg) = []"
  by (simp_all add: empty_daily_schedule_def)

text \<open>
  C1, amended. For every run and every date, each session of the final primary list is
  scheduled at its own start and end, and these do not overlap the lunch window. A session
  of a final backup pool may overlap it, but by no more than the 30 minutes of the backup
  tolerance: its times parse, and it starts no earlier than 30 minutes before the end of
  lunch or ends no later than 30 minutes after the start of lunch.
\<close>

theorem primaries_clear_of_lunch_backups_within_tolerance:
  "\<forall>(d, daily) \<in> set (days (create_schedule cfg alg sessions dates)).
     (\<forall>p \<in> set (primary_sessions daily). clear_of_lunch alg p) \<and>
     (\<forall>(k, bs) \<in> set (backup_sessions daily).
        \<forall>b \<in> set bs. lunch_overlap_within_tolerance alg b)"
proof (rule ballI)
  fix x
  assume a: "x \<in> set (days (create_schedule cfg alg sessions dates))"
  obtain d daily where x: "x = (d, daily)" by (cases x)
  from a have "(d, daily) \<in> set (schedule_days cfg alg sessions dates)"
    unfolding x by (simp add: create_schedule_def Let_def)
  from schedule_days_entry [OF this]
  have "(\<forall>p \<in> set (primary_sessions daily). clear_of_lunch alg p) \<and>
     (\<forall>(k, bs) \<in> set (backup_sessions daily).
        \<forall>b \<in> set bs. lunch_overlap_within_tolerance alg b)"
  proof
    assume "daily = empty_daily_schedule cfg"
    then show ?thesis by simp
  next
    assume "\<exists>ds. daily = create_daily_schedule cfg alg ds d"
    then obtain ds where ds: "daily = create_daily_schedule cfg alg ds d" by blast
    have "\<forall>p \<in> set (primary_sessions daily). clear_of_lunch alg p"
      unfolding ds using daily_primary_clear by blast
    moreover have "\<forall>(k, bs) \<in> set (backup_sessions daily).
        \<forall>b \<in> set bs. lunch_overlap_within_tolerance alg b"
      unfolding ds using daily_backup_tolerance by blast
    ultimately show ?thesis by (rule conjI)
  qed
  then show "case x of (d, daily) \<Rightarrow>
     (\<forall>p \<in> set (primary_sessions daily). clear_of_lunch alg p) \<and>
     (\<forall>(k, bs) \<in> set (backup_sessions daily).
        \<forall>b \<in> set bs. lunch_overlap_within_tolerance alg b)"
    unfolding x by simp
qed


text \<open>
  C1, as stated, fails for the backups. With the default configuration (lunch 11:00-13:00,
  buffer 30) and the sessions A 09:00-10:00, B 10:00-11:00 and C 10:30-11:30 of one day,
  both A and B become primaries, the resolver drops B, and C, which lies within 30 minutes
  of B's slot and conflicts with no remaining primary, stays in the backup pool of
  \<open>slot_2\<close> although it runs from minute 630 to minute 690 into the lunch window.
\<close>

theorem backup_overlaps_lunch:
  "map_option
     (\<lambda>r. map (\<lambda>(d, daily).
                 map (\<lambda>(k, bs). (k, map (\<lambda>b. (session_id b, start_time b, end_time b)) bs))
                   (backup_sessions daily))
            (days r))
     (run_schedule Config lunch_day [''2025-12-01'']) =
     Some [[(''slot_1'', []), (''slot_2'', [(Some ''C'', Some ''10:30'', Some ''11:30'')])]] \<and>
   SchedulingAlgorithm_init Config = Some default_algorithm \<and>
   is_lunch_time default_algorithm ''10:30'' ''11:30'' \<and>
   strptime_HM ''10:30'' = Some 630 \<and> strptime_HM ''11:30'' = Some 690 \<and>
   630 < lunch_end default_algorithm \<and> lunch_start default_algorithm < 690"
  by code_simp

theorem primaries_clear_of_lunch_backups_within_tolerance_witness:
  "(''2025-12-01'', create_daily_schedule Config default_algorithm lunch_day ''2025-12-01'')
     \<in> set (days (create_schedule Config default_algorithm lunch_day [''2025-12-01''])) \<and>
   assign_slot (lunch_day ! 0) (new_slot default_algorithm ''2025-12-01'' 0 ''09:00'' ''10:00'')
     \<in> set (primary_sessions
          (create_daily_schedule Config default_algorithm lunch_day ''2025-12-01'')) \<and>
   clear_of_lunch default_algorithm
     (assign_slot (lunch_day ! 0) (new_slot default_algorithm ''2025-12-01'' 0 ''09:00'' ''10:00'')) \<and>
   (''slot_2'', [(lunch_day ! 2)\<lparr>backup_score := Some (67 / 100)\<rparr>])
     \<in> set (backup_sessions
          (create_daily_schedule Config default_algorithm lunch_day ''2025-12-01'')) \<and>
   lunch_overlap_within_tolerance default_algorithm
     ((lunch_day ! 2)\<lparr>backup_score := Some (67 / 100)\<rparr>)"
proof -
  let ?daily = "create_daily_schedule Config default_algorithm lunch_day ''2025-12-01''"
  let ?p = "assign_slot (lunch_day ! 0)
      (new_slot default_algorithm ''2025-12-01'' 0 ''09:00'' ''10:00'')"
  let ?b = "(lunch_day ! 2)\<lparr>backup_score := Some (67 / 100)\<rparr>"
  have a: "(''2025-12-01'', ?daily)
     \<in> set (days (create_schedule Config default_algorithm lunch_day [''2025-12-01'']))"
    by code_simp
  have b: "?p \<in> set (primary_sessions ?daily)"
    by code_simp
  have c: "(''slot_2'', [?b]) \<in> set (backup_sessions ?daily)"
    by code_simp
  from bspec [OF primaries_clear_of_lunch_backups_within_tolerance a]
  have t: "(\<forall>p \<in> set (primary_sessions ?daily). clear_of_lunch default_algorithm p) \<and>
     (\<forall>(k, bs) \<in> set (backup_sessions ?daily).
        \<forall>b \<in> set bs. lunch_overlap_within_tolerance default_algorithm b)"
    by simp
  from bspec [OF t [THEN conjunct1] b] have d: "clear_of_lunch default_algorithm ?p" .
  from bspec [OF t [THEN conjunct2] c]
  have "\<forall>b \<in> set [?b]. lunch_overlap_within_tolerance default_algorithm b" by simp
  then have e: "lunch_overlap_within_tolerance default_algorithm ?b" by simp
  from a b d c e show ?thesis by (intro conjI)
qed

end
